theory Spec2Isabelle
  imports Complex_Main
begin

section \<open>Python values used by the driver\<close>

text \<open>
  The driver \<^verbatim>\<open>SP1060_24_AWG.py\<close> is Python. Its integers are unbounded (\<open>int\<close>), its
  strings are ASCII command and reply lines (\<open>string\<close>), and its floats are doubles:
  reals that every float operation rounds to the nearest double.
\<close>

datatype py_error = ValueError | TypeError | OverflowError

subsection \<open>Whitespace and \<^verbatim>\<open>str.strip\<close>\<close>

definition isspace :: "char \<Rightarrow> bool" where
  "isspace c = (c \<in> set [CHR 0x09, CHR 0x0A, CHR 0x0B, CHR 0x0C, CHR 0x0D,
                         CHR 0x1C, CHR 0x1D, CHR 0x1E, CHR 0x1F, CHR 0x20])"

definition strip :: "string \<Rightarrow> string" where
  "strip s = rev (dropWhile isspace (rev (dropWhile isspace s)))"

subsection \<open>\<^verbatim>\<open>int(s, 16)\<close>\<close>

text \<open>
  The value of one hexadecimal digit, in either case. Any other character has none.
\<close>

definition digit_value :: "char \<Rightarrow> nat option" where
  "digit_value c =
     (let k = (of_char c :: nat) in
      if 48 \<le> k \<and> k \<le> 57 then Some (k - 48)
      else if 65 \<le> k \<and> k \<le> 70 then Some (k - 55)
      else if 97 \<le> k \<and> k \<le> 102 then Some (k - 87)
      else None)"

text \<open>
  The digits after the first position: a single underscore may stand between two digits,
  never at the end and never doubled.
\<close>

fun parse_digits :: "nat \<Rightarrow> string \<Rightarrow> nat option" where
  "parse_digits acc [] = Some acc"
| "parse_digits acc (c # cs) =
     (if c = CHR ''_'' then
        (case cs of
           [] \<Rightarrow> None
         | d # ds \<Rightarrow>
             (case digit_value d of
                None \<Rightarrow> None
              | Some k \<Rightarrow> parse_digits (16 * acc + k) ds))
      else
        (case digit_value c of
           None \<Rightarrow> None
         | Some k \<Rightarrow> parse_digits (16 * acc + k) cs))"

text \<open>The digit string itself: not empty, and it may not start with an underscore.\<close>

definition parse_number :: "string \<Rightarrow> nat option" where
  "parse_number cs =
     (case cs of
        [] \<Rightarrow> None
      | c # _ \<Rightarrow> if c = CHR ''_'' then None else parse_digits 0 cs)"

text \<open>
  After the sign, base 16 accepts the prefix \<^verbatim>\<open>0x\<close> or \<^verbatim>\<open>0X\<close>, and one underscore
  right after it.
\<close>

definition skip_prefix :: "string \<Rightarrow> string" where
  "skip_prefix cs =
     (case cs of
        z # x # rest \<Rightarrow>
          if z = CHR ''0'' \<and> (x = CHR ''x'' \<or> x = CHR ''X'') then
            (case rest of
               u # rest' \<Rightarrow> if u = CHR ''_'' then rest' else rest
             | [] \<Rightarrow> rest)
          else cs
      | _ \<Rightarrow> cs)"

definition int16 :: "string \<Rightarrow> py_error + int" where
  "int16 s =
     (let t = strip s;
          (neg, body) =
            (case t of
               c # cs \<Rightarrow>
                 if c = CHR ''+'' then (False, cs)
                 else if c = CHR ''-'' then (True, cs)
                 else (False, t)
             | [] \<Rightarrow> (False, t))
      in case parse_number (skip_prefix body) of
           None \<Rightarrow> Inl ValueError
         | Some n \<Rightarrow> Inr (if neg then - int n else int n))"

subsection \<open>\<^verbatim>\<open>'{:X}'.format(code)\<close>\<close>

definition hexchar :: "nat \<Rightarrow> char" where
  "hexchar d = (if d < 10 then char_of (48 + d) else char_of (55 + d))"

fun hex_digits :: "nat \<Rightarrow> string" where
  "hex_digits n =
     (if n < 16 then [hexchar n] else hex_digits (n div 16) @ [hexchar (n mod 16)])"

declare hex_digits.simps [simp del]

definition format_X :: "int \<Rightarrow> string" where
  "format_X n = (if n < 0 then CHR ''-'' # hex_digits (nat (- n)) else hex_digits (nat n))"

subsection \<open>Floats\<close>

text \<open>
  A Python float is an IEEE double. Here it is the real number it stands for, and every
  operation on floats rounds its exact result to the nearest double, ties going to the
  even significand (\<open>to_double\<close>): 53 bits of significand, and the fixed spacing
  \<open>2^-1074\<close> below \<open>2^-1022\<close>. A rounded result of magnitude \<open>2^1024\<close> or more stands
  for an infinity.
\<close>

definition round_half_even :: "real \<Rightarrow> int" where
  "round_half_even y =
     (let f = \<lfloor>y\<rfloor>; d = y - of_int f in
      if d < 1 / 2 then f
      else if 1 / 2 < d then f + 1
      else if even f then f else f + 1)"

text \<open>The binary exponent of a positive real: \<open>2^e \<le> x < 2^(e+1)\<close>.\<close>

function exponent :: "real \<Rightarrow> int" where
  "exponent x =
     (if x \<le> 0 then 0
      else if 2 \<le> x then exponent (x / 2) + 1
      else if x < 1 then exponent (2 * x) - 1
      else 0)"
  by pat_completeness auto
termination
proof (relation "measure (\<lambda>x. nat \<lfloor>x\<rfloor> + 2 * nat \<lceil>1 / x\<rceil>)")
  show "wf (measure (\<lambda>x. nat \<lfloor>x\<rfloor> + 2 * nat \<lceil>1 / x\<rceil>))"
    by simp
next
  fix x :: real
  assume "\<not> x \<le> 0" and x: "2 \<le> x"
  have a: "\<lfloor>x / 2\<rfloor> < \<lfloor>x\<rfloor>"
  proof -
    have "x / 2 \<le> x - 1" using x by simp
    then have "\<lfloor>x / 2\<rfloor> \<le> \<lfloor>x - 1\<rfloor>" by (rule floor_mono)
    then show ?thesis by simp
  qed
  have b: "0 \<le> \<lfloor>x / 2\<rfloor>" using x by simp
  have c: "\<lceil>1 / (x / 2)\<rceil> = 1"
    using x by (simp add: ceiling_eq_iff)
  have d: "\<lceil>1 / x\<rceil> = 1"
    using x by (simp add: ceiling_eq_iff)
  show "(x / 2, x) \<in> measure (\<lambda>x. nat \<lfloor>x\<rfloor> + 2 * nat \<lceil>1 / x\<rceil>)"
    using a b x by (simp add: c d del: divide_divide_eq_right)
next
  fix x :: real
  assume pos: "\<not> x \<le> 0" and "\<not> 2 \<le> x" and x: "x < 1"
  have f0: "\<lfloor>x\<rfloor> = 0" using pos x by (simp add: floor_eq_iff)
  have half: "1 / (2 * x) = (1 / x) / 2" by simp
  show "(2 * x, x) \<in> measure (\<lambda>x. nat \<lfloor>x\<rfloor> + 2 * nat \<lceil>1 / x\<rceil>)"
  proof (cases "1 / 2 \<le> x")
    case True
    then have "\<lfloor>2 * x\<rfloor> = 1" using x by (simp add: floor_eq_iff)
    moreover have "\<lceil>1 / (2 * x)\<rceil> = 1"
      using True pos by (simp add: ceiling_eq_iff field_simps)
    moreover have "\<lceil>1 / x\<rceil> = 2"
      using True pos x by (simp add: ceiling_eq_iff field_simps)
    ultimately show ?thesis by (simp add: f0)
  next
    case False
    then have "\<lfloor>2 * x\<rfloor> = 0" using pos by (simp add: floor_eq_iff)
    moreover have "\<lceil>1 / (2 * x)\<rceil> < \<lceil>1 / x\<rceil>"
    proof -
      have "2 < 1 / x" using False pos by (simp add: field_simps)
      then have "1 / x / 2 \<le> 1 / x - 1" by simp
      then have "\<lceil>1 / x / 2\<rceil> \<le> \<lceil>1 / x - 1\<rceil>" by (rule ceiling_mono)
      then show ?thesis unfolding half by simp
    qed
    moreover have "0 < \<lceil>1 / (2 * x)\<rceil>"
      using pos by (simp add: field_simps)
    ultimately show ?thesis by (simp add: f0)
  qed
qed

declare exponent.simps [simp del]

definition to_double :: "real \<Rightarrow> real" where
  "to_double x =
     (if x = 0 then 0
      else (let u = 2 powi (max (exponent \<bar>x\<bar>) (- 1022) - 52)
            in of_int (round_half_even (x / u)) * u))"

definition fadd :: "real \<Rightarrow> real \<Rightarrow> real" where
  "fadd a b = to_double (a + b)"

definition fsub :: "real \<Rightarrow> real \<Rightarrow> real" where
  "fsub a b = to_double (a - b)"

definition fmul :: "real \<Rightarrow> real \<Rightarrow> real" where
  "fmul a b = to_double (a * b)"

definition fdiv :: "real \<Rightarrow> real \<Rightarrow> real" where
  "fdiv a b = to_double (a / b)"

text \<open>
  \<^verbatim>\<open>float(x)\<close> of a number: the nearest double, and \<^verbatim>\<open>OverflowError\<close> when the
  number is too large for one.
\<close>

definition py_float :: "real \<Rightarrow> py_error + real" where
  "py_float x =
     (let y = to_double x in if 2 ^ 1024 \<le> \<bar>y\<bar> then Inl OverflowError else Inr y)"

text \<open>
  \<^verbatim>\<open>int(x)\<close> of a float truncates towards zero, and raises \<^verbatim>\<open>OverflowError\<close> on an
  infinity.
\<close>

definition trunc :: "real \<Rightarrow> int" where
  "trunc x = (if 0 \<le> x then \<lfloor>x\<rfloor> else \<lceil>x\<rceil>)"

definition py_int :: "real \<Rightarrow> py_error + int" where
  "py_int x = (if 2 ^ 1024 \<le> \<bar>x\<bar> then Inl OverflowError else Inr (trunc x))"

text \<open>
  \<^verbatim>\<open>round(x, 6)\<close> of a float: the exact value is rounded to six decimals, a tie going
  to the even last digit, and the decimal result is the nearest double again.
\<close>

definition round6 :: "real \<Rightarrow> real" where
  "round6 x = to_double (of_int (round_half_even (x * 1000000)) / 1000000)"

text \<open>
  An integer divided by a float is converted to a float first, which raises
  \<^verbatim>\<open>OverflowError\<close> when it rounds beyond the largest double.
\<close>

definition int_to_float :: "int \<Rightarrow> py_error + real" where
  "int_to_float n =
     (if 2 ^ 1024 - 2 ^ 970 \<le> \<bar>n\<bar> then Inl OverflowError else Inr (to_double (of_int n)))"

section \<open>The codec: class \<^verbatim>\<open>SP1060Reader\<close>\<close>

text \<open>
  \<^verbatim>\<open>_vval_to_dacval\<close> and \<^verbatim>\<open>_dacval_to_vval\<close> (the leading underscore is dropped
  here). Both wrap their body in \<^verbatim>\<open>try: ... except: pass\<close>, so a failure of the body
  makes the method return Python's \<^verbatim>\<open>None\<close>: the result is \<open>Inr None\<close>, never
  \<open>Inl\<close> of an error. The body of each is given first.
\<close>

definition vval_to_dacval_body :: "real \<Rightarrow> py_error + int" where
  "vval_to_dacval_body vval =
     (case py_float vval of
        Inl e \<Rightarrow> Inl e
      | Inr x \<Rightarrow> py_int (fmul (fadd x 10) 838860.75))"

definition vval_to_dacval :: "real \<Rightarrow> py_error + int option" where
  "vval_to_dacval vval =
     (case vval_to_dacval_body vval of
        Inl e \<Rightarrow> Inr None
      | Inr dacval \<Rightarrow> Inr (Some dacval))"

definition dacval_to_vval_body :: "string \<Rightarrow> py_error + real" where
  "dacval_to_vval_body dacval =
     (case int16 (strip dacval) of
        Inl e \<Rightarrow> Inl e
      | Inr n \<Rightarrow>
          (case int_to_float n of
             Inl e \<Rightarrow> Inl e
           | Inr x \<Rightarrow> Inr (round6 (fsub (fdiv x 838860.75) 10))))"

definition dacval_to_vval :: "string \<Rightarrow> py_error + real option" where
  "dacval_to_vval dacval =
     (case dacval_to_vval_body dacval of
        Inl e \<Rightarrow> Inr None
      | Inr vval \<Rightarrow> Inr (Some vval))"

text \<open>
  The round trip of the claims: encode, write the code as hexadecimal text, decode. A
  \<^verbatim>\<open>None\<close> from the encoder cannot be formatted (\<^verbatim>\<open>TypeError\<close>).
\<close>

definition roundtrip :: "real \<Rightarrow> py_error + real option" where
  "roundtrip v =
     (case vval_to_dacval v of
        Inl e \<Rightarrow> Inl e
      | Inr None \<Rightarrow> Inl TypeError
      | Inr (Some code) \<Rightarrow> dacval_to_vval (format_X code))"

text \<open>The strings that \<open>hex_digits\<close> produces: upper-case hexadecimal digits only.\<close>

definition plain_hex :: "string \<Rightarrow> bool" where
  "plain_hex s = list_all (\<lambda>c. \<exists>d < 16. c = hexchar d) s"

section \<open>The transport\<close>

text \<open>
  The driver talks to the instrument through a VISA handle. What it does on the handle is
  recorded as a trace of events, oldest first: \<open>Clear\<close> for \<^verbatim>\<open>visa_handle.clear()\<close>,
  \<open>Wr cmd\<close> for a command line written, \<open>Rd\<close> for one reply line read, and \<open>Sleep t\<close> for
  \<^verbatim>\<open>time.sleep(t)\<close>. The instrument is any function from the trace so far (the read being
  its last event) to the line that the read returns; it always answers, so timeouts
  and disconnects of the VISA library are outside the model.
\<close>

datatype event = Clear | Wr string | Rd | Sleep real

type_synonym instrument = "event list \<Rightarrow> string"

definition visa_read :: "instrument \<Rightarrow> event list \<Rightarrow> string \<times> event list" where
  "visa_read dev tr = (dev (tr @ [Rd]), tr @ [Rd])"

text \<open>
  Modelled from the spec: \<^verbatim>\<open>ask\<close> of the instrument framework, which is not under
  \<^verbatim>\<open>src/\<close>. It writes the command followed by the line terminator and reads exactly one
  reply line.
\<close>

definition ask :: "instrument \<Rightarrow> string \<Rightarrow> event list \<Rightarrow> string \<times> event list" where
  "ask dev cmd tr = visa_read dev (tr @ [Wr cmd])"

definition empty_buffer :: "event list \<Rightarrow> event list" where
  "empty_buffer tr = tr @ [Clear]"

text \<open>
  The method \<^verbatim>\<open>SP1060.write\<close>; every other method reaches the instrument through it.
\<close>

definition SP1060_write :: "instrument \<Rightarrow> string \<Rightarrow> event list \<Rightarrow> string \<times> event list" where
  "SP1060_write dev cmd tr = ask dev cmd (empty_buffer tr)"

text \<open>The commands written in a trace, in order.\<close>

fun wr_cmds :: "event list \<Rightarrow> string list" where
  "wr_cmds [] = []"
| "wr_cmds (Wr c # es) = c # wr_cmds es"
| "wr_cmds (e # es) = wr_cmds es"

text \<open>
  The discipline of the write path, as a check on a trace: every command written stands
  right after a \<open>Clear\<close> and right before the \<open>Rd\<close> of its one reply.
\<close>

fun disciplined :: "event list \<Rightarrow> bool" where
  "disciplined [] = True"
| "disciplined (Clear # Wr c # Rd # es) = disciplined es"
| "disciplined (Wr c # es) = False"
| "disciplined (e # es) = disciplined es"

section \<open>Strings of the command protocol\<close>

subsection \<open>\<^verbatim>\<open>'{:0}'.format(chan)\<close>: an integer in decimal\<close>

definition digit_char :: "nat \<Rightarrow> char" where
  "digit_char d = char_of (48 + d)"

fun dec_digits :: "nat \<Rightarrow> string" where
  "dec_digits n =
     (if n < 10 then [digit_char n] else dec_digits (n div 10) @ [digit_char (n mod 10)])"

declare dec_digits.simps [simp del]

definition format_d :: "int \<Rightarrow> string" where
  "format_d n = (if n < 0 then CHR ''-'' # dec_digits (nat (- n)) else dec_digits (nat n))"

subsection \<open>\<^verbatim>\<open>reply.replace("\r\n", "")\<close> and \<^verbatim>\<open>.split(';')\<close>\<close>

fun remove_crlf :: "string \<Rightarrow> string" where
  "remove_crlf (a # b # cs) =
     (if a = CHR 0x0D \<and> b = CHR 0x0A then remove_crlf cs else a # remove_crlf (b # cs))"
| "remove_crlf cs = cs"

fun split_on :: "char \<Rightarrow> string \<Rightarrow> string list" where
  "split_on sep [] = [[]]"
| "split_on sep (c # cs) =
     (if c = sep then [] # split_on sep cs
      else (case split_on sep cs of
              [] \<Rightarrow> [[c]]
            | t # ts \<Rightarrow> (c # t) # ts))"

text \<open>The reply line that carries the given tokens, separated by semicolons.\<close>

fun join_semi :: "string list \<Rightarrow> string" where
  "join_semi [] = []"
| "join_semi [t] = t"
| "join_semi (t # ts) = t @ CHR '';'' # join_semi ts"

fun has_crlf :: "string \<Rightarrow> bool" where
  "has_crlf (a # b # cs) = ((a = CHR 0x0D \<and> b = CHR 0x0A) \<or> has_crlf (b # cs))"
| "has_crlf cs = False"

section \<open>The device: class \<^verbatim>\<open>SP1060\<close>\<close>

text \<open>
  \<^verbatim>\<open>_set_voltage\<close> formats the code it was given with \<^verbatim>\<open>{:X}\<close>; the code is what the
  encoder returned, and \<^verbatim>\<open>None\<close> cannot be formatted.
\<close>

definition set_voltage ::
  "instrument \<Rightarrow> int \<Rightarrow> int option \<Rightarrow> event list \<Rightarrow> (py_error + unit) \<times> event list" where
  "set_voltage dev chan code tr =
     (case code of
        None \<Rightarrow> (Inl TypeError, tr)
      | Some c \<Rightarrow> (Inr (), snd (SP1060_write dev (format_d chan @ '' '' @ format_X c) tr)))"

definition read_voltage ::
  "instrument \<Rightarrow> int \<Rightarrow> event list \<Rightarrow> (py_error + real option) \<times> event list" where
  "read_voltage dev chan tr =
     (let (dac_code, tr') = SP1060_write dev (format_d chan @ '' V?'') tr
      in (dacval_to_vval dac_code, tr'))"

definition query_all :: "instrument \<Rightarrow> event list \<Rightarrow> string list \<times> event list" where
  "query_all dev tr =
     (let (reply, tr') = SP1060_write dev ''All S?'' tr
      in (split_on CHR '';'' (remove_crlf reply), tr'))"

definition all_on :: "instrument \<Rightarrow> event list \<Rightarrow> event list" where
  "all_on dev tr = snd (SP1060_write dev ''ALL ON'' tr)"

definition all_off :: "instrument \<Rightarrow> event list \<Rightarrow> event list" where
  "all_off dev tr = snd (SP1060_write dev ''ALL OFF'' tr)"

definition get_serial :: "instrument \<Rightarrow> event list \<Rightarrow> string \<times> event list" where
  "get_serial dev tr =
     (let (_, tr1) = SP1060_write dev ''HARD?'' tr;
          (reply, tr2) = visa_read dev tr1;
          tr3 = tr2 @ [Sleep 0.01];
          tr4 = empty_buffer tr3
      in (drop 3 (strip reply), tr4))"

definition get_firmware :: "instrument \<Rightarrow> event list \<Rightarrow> string \<times> event list" where
  "get_firmware dev tr =
     (let (_, tr1) = SP1060_write dev ''SOFT?'' tr;
          (reply, tr2) = visa_read dev tr1;
          tr3 = tr2 @ [Sleep 0.01];
          tr4 = empty_buffer tr3;
          s = strip reply
      in (drop (length s - 5) s, tr4))"

definition get_idn :: "instrument \<Rightarrow> event list \<Rightarrow> (string \<times> string) list \<times> event list" where
  "get_idn dev tr =
     (let (SN, tr1) = get_serial dev tr;
          (FW, tr2) = get_firmware dev tr1
      in (zip [''vendor'', ''model'', ''serial'', ''firmware'']
              [''BasPI'', ''LNHR DAC SP1060'', SN, FW], tr2))"

text \<open>
  \<^verbatim>\<open>set_newWaveform\<close> issues thirteen commands, with \<^verbatim>\<open>time.sleep(0.01)\<close> between
  one and the next. The commands are listed first, in the order of the source.
\<close>

definition memsave_of :: "string \<Rightarrow> string" where
  "memsave_of wavemem =
     (if wavemem = ''0'' then ''A''
      else if wavemem = ''1'' then ''B''
      else if wavemem = ''2'' then ''C''
      else if wavemem = ''3'' then ''D''
      else [])"

definition newWaveform_cmds ::
  "string \<Rightarrow> string \<Rightarrow> string \<Rightarrow> string \<Rightarrow> string \<Rightarrow> string list" where
  "newWaveform_cmds channel waveform frequency amplitude wavemem =
     (let memsave = memsave_of wavemem in
      [''C WAV-B CLR'',
       ''C SWG MODE 0'',
       ''C SWG WF '' @ waveform,
       ''C SWG DF '' @ frequency,
       ''C SWG AMP '' @ amplitude,
       ''C SWG WMEM '' @ wavemem,
       ''C SWG WFUN 0'',
       ''C SWG LIN '' @ channel,
       ''C AWG-'' @ memsave @ '' CH '' @ channel,
       ''C SWG APPLY'',
       ''C WAV-'' @ memsave @ '' SAVE'',
       ''C WAV-'' @ memsave @ '' WRITE'',
       ''C AWG-'' @ memsave @ '' START''])"

fun write_seq :: "instrument \<Rightarrow> string list \<Rightarrow> event list \<Rightarrow> event list" where
  "write_seq dev [] tr = tr"
| "write_seq dev [c] tr = snd (SP1060_write dev c tr)"
| "write_seq dev (c # cs) tr = write_seq dev cs (snd (SP1060_write dev c tr) @ [Sleep 0.01])"

definition set_newWaveform ::
  "instrument \<Rightarrow> string \<Rightarrow> string \<Rightarrow> string \<Rightarrow> string \<Rightarrow> string \<Rightarrow> event list \<Rightarrow> event list"
  where
  "set_newWaveform dev channel waveform frequency amplitude wavemem tr =
     write_seq dev (newWaveform_cmds channel waveform frequency amplitude wavemem) tr"

text \<open>Whether one string occurs inside another, as Python's \<^verbatim>\<open>in\<close> on strings.\<close>

fun contains :: "string \<Rightarrow> string \<Rightarrow> bool" where
  "contains [] sub = (sub = [])"
| "contains (c # cs) sub = (take (length sub) (c # cs) = sub \<or> contains cs sub)"

section \<open>The channel: class \<^verbatim>\<open>SP1060Channel\<close>\<close>

subsection \<open>What the instrument framework provides\<close>

text \<open>
  Modelled from the spec: the range validators \<^verbatim>\<open>vals.Ints\<close> and \<^verbatim>\<open>vals.Numbers\<close> of
  the instrument framework, which are not under \<^verbatim>\<open>src/\<close>. A value is accepted when it
  lies in the inclusive interval and is refused with a range error otherwise. The
  constructor of \<open>Numbers\<close> is taken at its strictest: it refuses bounds that are not in
  increasing order, so nothing proved below rests on a validator that tolerates them.
\<close>

record numbers =
  min_value :: real
  max_value :: real

definition Numbers :: "real \<Rightarrow> real \<Rightarrow> py_error + numbers" where
  "Numbers lo hi =
     (if lo < hi then Inr \<lparr>min_value = lo, max_value = hi\<rparr> else Inl TypeError)"

definition validate :: "numbers \<Rightarrow> real \<Rightarrow> py_error + unit" where
  "validate nv v =
     (if min_value nv \<le> v \<and> v \<le> max_value nv then Inr () else Inl ValueError)"

definition Ints_validate :: "int \<Rightarrow> int \<Rightarrow> int \<Rightarrow> py_error + unit" where
  "Ints_validate lo hi n = (if lo \<le> n \<and> n \<le> hi then Inr () else Inl ValueError)"

text \<open>
  The \<^verbatim>\<open>volt\<close> parameter of a channel: its validator, its largest step (\<^verbatim>\<open>None\<close> until
  the device sets it), its delay between updates, and the last known value.
\<close>

record parameter =
  vals :: numbers
  step :: "real option"
  inter_delay :: real
  cache :: "real option"

record channel =
  name :: string
  channel_no :: int
  volt_val :: numbers
  volt :: parameter

text \<open>
  Modelled from the spec: the values that a set request sends, which the framework's
  parameter computes (not under \<^verbatim>\<open>src/\<close>). If the change from the last known value
  exceeds the largest step, the update is broken into commands of at most that step each,
  in the direction from the current value to the target, ending exactly at the target;
  the last step may be smaller.
\<close>

function ramp :: "real \<Rightarrow> real \<Rightarrow> real \<Rightarrow> real list" where
  "ramp cur target st =
     (if 0 < st \<and> st < \<bar>target - cur\<bar> then
        (if cur < target then (cur + st) # ramp (cur + st) target st
         else (cur - st) # ramp (cur - st) target st)
      else [target])"
  by pat_completeness auto
termination
proof (relation "measure (\<lambda>(cur, target, st). nat \<lceil>\<bar>target - cur\<bar> / st\<rceil>)")
  show "wf (measure (\<lambda>(cur, target, st). nat \<lceil>\<bar>target - cur\<bar> / st\<rceil>))"
    by simp
next
  fix cur target st :: real
  assume a: "0 < st \<and> st < \<bar>target - cur\<bar>" and lt: "cur < target"
  have "\<bar>target - (cur + st)\<bar> / st = \<bar>target - cur\<bar> / st - 1"
    using a lt by (simp add: field_simps)
  then have "\<lceil>\<bar>target - (cur + st)\<bar> / st\<rceil> = \<lceil>\<bar>target - cur\<bar> / st\<rceil> - 1"
    by (simp add: ceiling_diff_one)
  moreover have "1 < \<bar>target - cur\<bar> / st"
    using a by simp
  then have "0 < \<lceil>\<bar>target - cur\<bar> / st\<rceil>"
    by linarith
  ultimately have "nat \<lceil>\<bar>target - (cur + st)\<bar> / st\<rceil> < nat \<lceil>\<bar>target - cur\<bar> / st\<rceil>"
    by linarith
  then show "((cur + st, target, st), (cur, target, st))
      \<in> measure (\<lambda>(cur, target, st). nat \<lceil>\<bar>target - cur\<bar> / st\<rceil>)"
    by simp
next
  fix cur target st :: real
  assume a: "0 < st \<and> st < \<bar>target - cur\<bar>" and lt: "\<not> cur < target"
  have "\<bar>target - (cur - st)\<bar> / st = \<bar>target - cur\<bar> / st - 1"
    using a lt by (simp add: field_simps)
  then have "\<lceil>\<bar>target - (cur - st)\<bar> / st\<rceil> = \<lceil>\<bar>target - cur\<bar> / st\<rceil> - 1"
    by (simp add: ceiling_diff_one)
  moreover have "1 < \<bar>target - cur\<bar> / st"
    using a by simp
  then have "0 < \<lceil>\<bar>target - cur\<bar> / st\<rceil>"
    by linarith
  ultimately have "nat \<lceil>\<bar>target - (cur - st)\<bar> / st\<rceil> < nat \<lceil>\<bar>target - cur\<bar> / st\<rceil>"
    by linarith
  then show "((cur - st, target, st), (cur, target, st))
      \<in> measure (\<lambda>(cur, target, st). nat \<lceil>\<bar>target - cur\<bar> / st\<rceil>)"
    by simp
qed

declare ramp.simps [simp del]

definition ramp_values :: "parameter \<Rightarrow> real \<Rightarrow> real list" where
  "ramp_values p v =
     (case (cache p, step p) of
        (Some cur, Some st) \<Rightarrow> ramp cur v st
      | _ \<Rightarrow> [v])"

text \<open>
  Checks on a sequence of commanded values that starts from \<open>prev\<close>: every value is at
  most \<open>st\<close> from the one before it, and every value moves towards the target \<open>tgt\<close>
  without passing it.
\<close>

fun steps_within :: "real \<Rightarrow> real \<Rightarrow> real list \<Rightarrow> bool" where
  "steps_within st prev [] = True"
| "steps_within st prev (x # xs) = (\<bar>x - prev\<bar> \<le> st \<and> steps_within st x xs)"

fun steps_towards :: "real \<Rightarrow> real \<Rightarrow> real list \<Rightarrow> bool" where
  "steps_towards tgt prev [] = True"
| "steps_towards tgt prev (x # xs) =
     (((prev < x \<and> x \<le> tgt) \<or> (tgt \<le> x \<and> x < prev) \<or> (prev = tgt \<and> x = tgt))
      \<and> steps_towards tgt x xs)"

subsection \<open>The constructor\<close>

text \<open>
  \<^verbatim>\<open>SP1060Channel.__init__\<close>: the channel number is validated against \<open>1..24\<close>, and
  the voltage validator is built from the smaller and the larger of the two bounds. The
  parameter starts with the framework's defaults: no step, no delay, no known value.
\<close>

definition SP1060Channel_init :: "string \<Rightarrow> int \<Rightarrow> real \<Rightarrow> real \<Rightarrow> py_error + channel" where
  "SP1060Channel_init nm chan min_val max_val =
     (case Ints_validate 1 24 chan of
        Inl e \<Rightarrow> Inl e
      | Inr _ \<Rightarrow>
          (case Numbers (min min_val max_val) (max min_val max_val) of
             Inl e \<Rightarrow> Inl e
           | Inr nv \<Rightarrow>
               Inr \<lparr>name = nm, channel_no = chan, volt_val = nv,
                    volt = \<lparr>vals = nv, step = None, inter_delay = 0, cache = None\<rparr>\<rparr>))"

subsection \<open>Setting and reading the voltage parameter\<close>

text \<open>
  Modelled from the spec: the set and get of the framework's parameter (not under
  \<^verbatim>\<open>src/\<close>), around the driver's own \<^verbatim>\<open>set_parser\<close>, \<^verbatim>\<open>set_cmd\<close> and \<^verbatim>\<open>get_cmd\<close>. A
  set validates the requested value first and is refused with a range error before any
  transport I/O; then each value of the ramp is encoded and written, one command after
  another, spaced by the delay between updates, and the last known value follows. A get
  is one query, decoded by the codec; a successful read becomes the last known value.
\<close>

fun send_steps ::
  "instrument \<Rightarrow> channel \<Rightarrow> real list \<Rightarrow> event list \<Rightarrow> (py_error + channel) \<times> event list"
  where
  "send_steps dev ch [] tr = (Inr ch, tr)"
| "send_steps dev ch (v # vs) tr =
     (case vval_to_dacval v of
        Inl e \<Rightarrow> (Inl e, tr)
      | Inr code \<Rightarrow>
          (case set_voltage dev (channel_no ch) code tr of
             (Inl e, tr') \<Rightarrow> (Inl e, tr')
           | (Inr _, tr') \<Rightarrow>
               send_steps dev (ch\<lparr>volt := (volt ch)\<lparr>cache := Some v\<rparr>\<rparr>) vs
                 (if vs = [] then tr' else tr' @ [Sleep (inter_delay (volt ch))])))"

definition volt_set ::
  "instrument \<Rightarrow> channel \<Rightarrow> real \<Rightarrow> event list \<Rightarrow> (py_error + channel) \<times> event list" where
  "volt_set dev ch v tr =
     (case validate (vals (volt ch)) v of
        Inl e \<Rightarrow> (Inl e, tr)
      | Inr _ \<Rightarrow> send_steps dev ch (ramp_values (volt ch) v) tr)"

definition volt_get ::
  "instrument \<Rightarrow> channel \<Rightarrow> event list \<Rightarrow> (py_error + real option) \<times> channel \<times> event list"
  where
  "volt_get dev ch tr =
     (case read_voltage dev (channel_no ch) tr of
        (Inl e, tr') \<Rightarrow> (Inl e, ch, tr')
      | (Inr None, tr') \<Rightarrow> (Inr None, ch, tr')
      | (Inr (Some v), tr') \<Rightarrow> (Inr (Some v), ch\<lparr>volt := (volt ch)\<lparr>cache := Some v\<rparr>\<rparr>, tr'))"

section \<open>Constructing the device: \<^verbatim>\<open>SP1060.__init__\<close>\<close>

record sp1060 =
  channels :: "channel list"
  num_chans :: nat
  visa :: "event list"

text \<open>
  The loop that creates the channels: \<^verbatim>\<open>SP1060Channel(self, 'chan{:1}'.format(i), i)\<close>
  for \<open>i\<close> from 1 to 24. The bounds are the defaults of the channel's constructor; the
  \<^verbatim>\<open>min_val\<close> and \<^verbatim>\<open>max_val\<close> of the device do not reach it.
\<close>

fun make_channels :: "int list \<Rightarrow> py_error + channel list" where
  "make_channels [] = Inr []"
| "make_channels (i # is) =
     (case SP1060Channel_init (''chan'' @ format_d i) i (-10) 10 of
        Inl e \<Rightarrow> Inl e
      | Inr ch \<Rightarrow>
          (case make_channels is of
             Inl e \<Rightarrow> Inl e
           | Inr chs \<Rightarrow> Inr (ch # chs)))"

text \<open>\<^verbatim>\<open>self.channels[:].volt.get()\<close>: every channel is read, in order.\<close>

fun volt_get_all ::
  "instrument \<Rightarrow> channel list \<Rightarrow> event list \<Rightarrow> (py_error + real option list) \<times> channel list \<times> event list"
  where
  "volt_get_all dev [] tr = (Inr [], [], tr)"
| "volt_get_all dev (ch # chs) tr =
     (case volt_get dev ch tr of
        (Inl e, ch', tr') \<Rightarrow> (Inl e, ch' # chs, tr')
      | (Inr v, ch', tr') \<Rightarrow>
          (case volt_get_all dev chs tr' of
             (Inl e, chs', tr'') \<Rightarrow> (Inl e, ch' # chs', tr'')
           | (Inr vs, chs', tr'') \<Rightarrow> (Inr (v # vs), ch' # chs', tr'')))"

text \<open>
  The constructor, from the creation of the channels on. The framework's
  \<^verbatim>\<open>connect_message\<close> asks the driver's \<^verbatim>\<open>get_idn\<close> for the identity. The result is the
  device with the trace of everything the constructor did on the handle.
\<close>

definition SP1060_init :: "instrument \<Rightarrow> real \<Rightarrow> real \<Rightarrow> py_error + sp1060" where
  "SP1060_init dev min_val max_val =
     (case make_channels [1 .. 24] of
        Inl e \<Rightarrow> Inl e
      | Inr chs \<Rightarrow>
          (let chs1 = map (\<lambda>chan. chan\<lparr>volt := (volt chan)\<lparr>inter_delay := 0.02, step := Some 0.01\<rparr>\<rparr>) chs;
               (status, tr1) = query_all dev [];
               tr2 = (if ''OFF'' \<in> set status then all_on dev tr1 else tr1);
               (idn, tr3) = get_idn dev tr2
           in case volt_get_all dev chs1 tr3 of
                (Inl e, chs2, tr4) \<Rightarrow> Inl e
              | (Inr vs, chs2, tr4) \<Rightarrow> Inr \<lparr>channels = chs2, num_chans = 24, visa = tr4\<rparr>))"

text \<open>\<^verbatim>\<open>set_all\<close>: every channel is set in turn; the first error ends the loop.\<close>

fun set_all_loop ::
  "instrument \<Rightarrow> channel list \<Rightarrow> real \<Rightarrow> event list \<Rightarrow> (py_error + unit) \<times> channel list \<times> event list"
  where
  "set_all_loop dev [] v tr = (Inr (), [], tr)"
| "set_all_loop dev (ch # chs) v tr =
     (case volt_set dev ch v tr of
        (Inl e, tr') \<Rightarrow> (Inl e, ch # chs, tr')
      | (Inr ch', tr') \<Rightarrow>
          (case set_all_loop dev chs v tr' of
             (r, chs', tr'') \<Rightarrow> (r, ch' # chs', tr'')))"

definition set_all :: "instrument \<Rightarrow> real \<Rightarrow> sp1060 \<Rightarrow> (py_error + unit) \<times> sp1060" where
  "set_all dev v d =
     (case set_all_loop dev (channels d) v (visa d) of
        (r, chs, tr) \<Rightarrow> (r, d\<lparr>channels := chs, visa := tr\<rparr>))"

section \<open>The driver as a whole\<close>

text \<open>
  The code that the encoder computes for a voltage when nothing overflows, and the
  command line that sets channel \<open>chan\<close> to the voltage \<open>v\<close>: the parameter's
  \<^verbatim>\<open>set_parser\<close> is \<^verbatim>\<open>_vval_to_dacval\<close> and its \<^verbatim>\<open>set_cmd\<close> is \<^verbatim>\<open>_set_voltage\<close>, which
  formats \<^verbatim>\<open>'{:0} {:X}'\<close>.
\<close>

definition dac_code :: "real \<Rightarrow> int" where
  "dac_code v = trunc (fmul (fadd (to_double v) 10) 838860.75)"

definition volt_command :: "int \<Rightarrow> real \<Rightarrow> string" where
  "volt_command chan v = format_d chan @ '' '' @ format_X (dac_code v)"

text \<open>
  The calls that a user of the driver can make on a constructed device, and what each does
  to the device and to the trace of its handle. A channel is addressed by its position in
  the channel list. The value that a call returns is dropped here; an error ends the call
  and keeps what was already written.
\<close>

datatype call =
    Volt_set nat real
  | Volt_get nat
  | Set_all real
  | Query_all
  | All_on
  | All_off
  | Get_serial
  | Get_firmware
  | Get_idn
  | Set_newWaveform string string string string string
  | Set_voltage int "int option"
  | Read_voltage int
  | Write string
  | Empty_buffer

fun run_call :: "instrument \<Rightarrow> sp1060 \<Rightarrow> call \<Rightarrow> sp1060" where
  "run_call dev d (Volt_set i v) =
     (if i < length (channels d) then
        (case volt_set dev (channels d ! i) v (visa d) of
           (Inl e, tr) \<Rightarrow> d\<lparr>visa := tr\<rparr>
         | (Inr ch, tr) \<Rightarrow> d\<lparr>channels := (channels d)[i := ch], visa := tr\<rparr>)
      else d)"
| "run_call dev d (Volt_get i) =
     (if i < length (channels d) then
        (case volt_get dev (channels d ! i) (visa d) of
           (r, ch, tr) \<Rightarrow> d\<lparr>channels := (channels d)[i := ch], visa := tr\<rparr>)
      else d)"
| "run_call dev d (Set_all v) = snd (set_all dev v d)"
| "run_call dev d Query_all = d\<lparr>visa := snd (query_all dev (visa d))\<rparr>"
| "run_call dev d All_on = d\<lparr>visa := all_on dev (visa d)\<rparr>"
| "run_call dev d All_off = d\<lparr>visa := all_off dev (visa d)\<rparr>"
| "run_call dev d Get_serial = d\<lparr>visa := snd (get_serial dev (visa d))\<rparr>"
| "run_call dev d Get_firmware = d\<lparr>visa := snd (get_firmware dev (visa d))\<rparr>"
| "run_call dev d Get_idn = d\<lparr>visa := snd (get_idn dev (visa d))\<rparr>"
| "run_call dev d (Set_newWaveform channel waveform frequency amplitude wavemem) =
     d\<lparr>visa := set_newWaveform dev channel waveform frequency amplitude wavemem (visa d)\<rparr>"
| "run_call dev d (Set_voltage chan code) =
     d\<lparr>visa := snd (set_voltage dev chan code (visa d))\<rparr>"
| "run_call dev d (Read_voltage chan) = d\<lparr>visa := snd (read_voltage dev chan (visa d))\<rparr>"
| "run_call dev d (Write cmd) = d\<lparr>visa := snd (SP1060_write dev cmd (visa d))\<rparr>"
| "run_call dev d Empty_buffer = d\<lparr>visa := empty_buffer (visa d)\<rparr>"

definition run_calls :: "instrument \<Rightarrow> sp1060 \<Rightarrow> call list \<Rightarrow> sp1060" where
  "run_calls dev d cs = foldl (run_call dev) d cs"

text \<open>
  A trace \<open>tr'\<close> continues a trace \<open>tr\<close> in a disciplined way when what was added keeps
  the discipline of the write path on its own.
\<close>

definition continues :: "event list \<Rightarrow> event list \<Rightarrow> bool" where
  "continues tr tr' = (take (length tr) tr' = tr \<and> disciplined (drop (length tr) tr'))"

text \<open>
  The settings of a channel that stay fixed once the device is constructed: its number,
  its validator, its largest step and its delay between updates.
\<close>

definition settings :: "channel \<Rightarrow> int \<times> numbers \<times> real option \<times> real" where
  "settings ch = (channel_no ch, vals (volt ch), step (volt ch), inter_delay (volt ch))"

section \<open>Verification\<close>

subsection \<open>Hexadecimal text: formatting and parsing\<close>

lemma digit_value_hexchar: "d < 16 \<Longrightarrow> digit_value (hexchar d) = Some d"
  by (auto simp: digit_value_def hexchar_def Let_def)

lemma hexchar_plain:
  assumes "d < 16"
  shows "\<not> isspace (hexchar d)" "hexchar d \<noteq> CHR ''_''" "hexchar d \<noteq> CHR ''+''"
    "hexchar d \<noteq> CHR ''-''" "hexchar d \<noteq> CHR ''x''" "hexchar d \<noteq> CHR ''X''"
  using digit_value_hexchar [OF assms]
  by (auto simp: digit_value_def isspace_def Let_def split: if_splits)


lemma plain_hex_hex_digits: "plain_hex (hex_digits n)"
proof (induction n rule: hex_digits.induct)
  case (1 n)
  show ?case
  proof (cases "n < 16")
    case True
    then show ?thesis
      by (subst hex_digits.simps) (auto simp: plain_hex_def)
  next
    case False
    have "\<exists>d<16. hexchar (n mod 16) = hexchar d"
      by (rule exI [of _ "n mod 16"]) simp
    with False 1 show ?thesis
      by (subst hex_digits.simps) (simp add: plain_hex_def)
  qed
qed

lemma hex_digits_not_Nil: "hex_digits n \<noteq> []"
  by (subst hex_digits.simps) simp

lemma parse_digits_plain:
  "plain_hex xs \<Longrightarrow>
   parse_digits acc (xs @ ys) =
   parse_digits (foldl (\<lambda>a c. 16 * a + the (digit_value c)) acc xs) ys"
proof (induction xs arbitrary: acc)
  case Nil
  then show ?case by simp
next
  case (Cons x xs)
  then obtain d where d: "d < 16" "x = hexchar d" and xs: "plain_hex xs"
    by (auto simp: plain_hex_def)
  show ?case
    using Cons.IH [OF xs] d
    by (simp add: digit_value_hexchar hexchar_plain)
qed

lemma foldl_hex_digits:
  "foldl (\<lambda>a c. 16 * a + the (digit_value c)) 0 (hex_digits n) = n"
proof (induction n rule: hex_digits.induct)
  case (1 n)
  show ?case
  proof (cases "n < 16")
    case True
    then show ?thesis
      by (subst hex_digits.simps) (simp add: digit_value_hexchar)
  next
    case False
    have "n mod 16 < 16" by simp
    with False 1 show ?thesis
      by (subst hex_digits.simps) (simp add: digit_value_hexchar)
  qed
qed

lemma parse_number_hex_digits: "parse_number (hex_digits n) = Some n"
proof -
  obtain c cs where eq: "hex_digits n = c # cs"
    using hex_digits_not_Nil [of n] by (cases "hex_digits n") auto
  have "plain_hex (c # cs)"
    using plain_hex_hex_digits [of n] eq by simp
  then have c: "c \<noteq> CHR ''_''"
    by (auto simp: plain_hex_def hexchar_plain)
  have "parse_digits 0 (hex_digits n @ []) = Some n"
    by (subst parse_digits_plain [OF plain_hex_hex_digits]) (simp add: foldl_hex_digits)
  with eq c show ?thesis
    by (simp add: parse_number_def)
qed

lemma strip_plain_hex: "plain_hex s \<Longrightarrow> strip s = s"
proof -
  assume p: "plain_hex s"
  have a: "dropWhile isspace s = s"
    using p by (cases s) (auto simp: plain_hex_def hexchar_plain)
  have "plain_hex (rev s)"
    using p by (simp add: plain_hex_def)
  then have b: "dropWhile isspace (rev s) = rev s"
    by (cases "rev s") (auto simp: plain_hex_def hexchar_plain)
  show ?thesis
    by (simp add: strip_def a b)
qed

lemma skip_prefix_plain_hex: "plain_hex s \<Longrightarrow> skip_prefix s = s"
proof (cases s)
  case Nil
  then show ?thesis by (simp add: skip_prefix_def)
next
  case (Cons z t)
  assume p: "plain_hex s"
  show ?thesis
  proof (cases t)
    case Nil
    with Cons show ?thesis by (simp add: skip_prefix_def)
  next
    case (Cons x rest)
    with p \<open>s = z # t\<close> obtain d where "d < 16" "x = hexchar d"
      by (auto simp: plain_hex_def)
    then have "x \<noteq> CHR ''x''" "x \<noteq> CHR ''X''"
      by (simp_all add: hexchar_plain)
    with Cons \<open>s = z # t\<close> show ?thesis by (simp add: skip_prefix_def)
  qed
qed

lemma int16_plain_hex:
  assumes p: "plain_hex s"
  shows "int16 s = (case parse_number s of None \<Rightarrow> Inl ValueError | Some n \<Rightarrow> Inr (int n))"
proof (cases s)
  case Nil
  then show ?thesis
    by (simp add: int16_def strip_def skip_prefix_def parse_number_def)
next
  case (Cons c cs)
  with p have c: "c \<noteq> CHR ''+''" "c \<noteq> CHR ''-''"
    by (auto simp: plain_hex_def hexchar_plain)
  have "strip s = c # cs"
    using strip_plain_hex [OF p] Cons by simp
  moreover have "skip_prefix (c # cs) = s"
    using skip_prefix_plain_hex [OF p] Cons by simp
  ultimately show ?thesis
    using c by (simp add: int16_def split: option.splits)
qed

lemma int16_format_X: "0 \<le> n \<Longrightarrow> int16 (strip (format_X n)) = Inr n"
  by (simp add: format_X_def strip_plain_hex plain_hex_hex_digits int16_plain_hex
      parse_number_hex_digits)

subsection \<open>Rounding to a double\<close>

lemma pow2_plus1: "(2::real) powi (e + 1) = 2 * 2 powi e"
  by (simp add: power_int_add)

lemma pow2_minus1: "(2::real) powi (e - 1) = 2 powi e / 2"
  by (simp add: power_int_diff)

lemma pow2_pos: "0 < (2::real) powi e"
  by simp

lemma exponent_bounds:
  "0 < x \<Longrightarrow> 2 powi (exponent x) \<le> x \<and> x < 2 powi (exponent x + 1)"
proof (induction x rule: exponent.induct)
  case (1 x)
  show ?case
  proof (cases "2 \<le> x")
    case True
    then have e: "exponent x = exponent (x / 2) + 1"
      using 1(3) by (subst exponent.simps) simp
    have "2 powi (exponent (x / 2)) \<le> x / 2 \<and> x / 2 < 2 powi (exponent (x / 2) + 1)"
      using 1(1) True 1(3) by simp
    then show ?thesis
      unfolding e pow2_plus1 by simp
  next
    case False
    show ?thesis
    proof (cases "x < 1")
      case True
      then have e: "exponent x = exponent (2 * x) - 1"
        using 1(3) False by (subst exponent.simps) simp
      have "2 powi (exponent (2 * x)) \<le> 2 * x \<and> 2 * x < 2 powi (exponent (2 * x) + 1)"
        using 1(2) True False 1(3) by simp
      then show ?thesis
        unfolding e pow2_minus1 by (simp add: pow2_plus1)
    next
      case False
      with \<open>\<not> 2 \<le> x\<close> 1(3) have "exponent x = 0"
        by (subst exponent.simps) simp
      with False \<open>\<not> 2 \<le> x\<close> show ?thesis by simp
    qed
  qed
qed

lemma round_half_even_near: "\<bar>of_int (round_half_even y) - y\<bar> \<le> 1 / 2"
proof -
  have "of_int \<lfloor>y\<rfloor> \<le> y" "y < of_int \<lfloor>y\<rfloor> + 1"
    by linarith+
  then show ?thesis
    by (auto simp: round_half_even_def Let_def)
qed

lemma round_half_even_nonneg: "0 \<le> y \<Longrightarrow> 0 \<le> round_half_even y"
  by (auto simp: round_half_even_def Let_def)

lemma to_double_nonneg: "0 \<le> x \<Longrightarrow> 0 \<le> to_double x"
  by (simp add: to_double_def Let_def round_half_even_nonneg)

lemma to_double_error:
  assumes "\<bar>x\<bar> \<le> M"
  shows "\<bar>to_double x - x\<bar> \<le> M / 2 ^ 53 + 1 / 2 ^ 1075"
proof (cases "x = 0")
  case True
  with assms show ?thesis by (simp add: to_double_def)
next
  case False
  define e where "e = max (exponent \<bar>x\<bar>) (- 1022)"
  define u :: real where "u = 2 powi (e - 52)"
  have u: "0 < u" by (simp add: u_def)
  have td: "to_double x = of_int (round_half_even (x / u)) * u"
    using False by (simp add: to_double_def Let_def u_def e_def)
  have "\<bar>of_int (round_half_even (x / u)) - x / u\<bar> \<le> 1 / 2"
    by (rule round_half_even_near)
  then have "\<bar>of_int (round_half_even (x / u)) - x / u\<bar> * u \<le> 1 / 2 * u"
    using u by (simp only: mult_le_cancel_right_pos)
  moreover have "\<bar>of_int (round_half_even (x / u)) - x / u\<bar> * u =
      \<bar>of_int (round_half_even (x / u)) * u - x\<bar>"
  proof -
    have "\<bar>of_int (round_half_even (x / u)) - x / u\<bar> * u =
        \<bar>(of_int (round_half_even (x / u)) - x / u) * u\<bar>"
      using u by (simp add: abs_mult)
    also have "(of_int (round_half_even (x / u)) - x / u) * u =
        of_int (round_half_even (x / u)) * u - x"
      using u by (simp add: field_simps)
    finally show ?thesis .
  qed
  ultimately have near: "\<bar>to_double x - x\<bar> \<le> u / 2"
    by (simp add: td)
  have half: "u / 2 = 2 powi (e - 53)"
    unfolding u_def using pow2_minus1 [of "e - 52"] by simp
  have "u / 2 \<le> M / 2 ^ 53 + 1 / 2 ^ 1075"
  proof (cases "- 1022 \<le> exponent \<bar>x\<bar>")
    case True
    then have ee: "e = exponent \<bar>x\<bar>" by (simp add: e_def)
    have "2 powi e \<le> \<bar>x\<bar>"
      unfolding ee using exponent_bounds [of "\<bar>x\<bar>"] False by simp
    then have "2 powi e \<le> M" using assms by simp
    moreover have "(2::real) powi (e - 53) = 2 powi e / 2 ^ 53"
      by (simp add: power_int_diff)
    ultimately have "u / 2 \<le> M / 2 ^ 53"
      unfolding half by (simp add: divide_right_mono)
    then show ?thesis by simp
  next
    case False
    then have "e = - 1022" by (simp add: e_def)
    then have "u / 2 = 1 / 2 ^ 1075"
      unfolding half by (simp add: power_int_minus field_simps)
    moreover have "0 \<le> M" using assms by simp
    ultimately show ?thesis by simp
  qed
  with near show ?thesis by simp
qed

lemma to_double_error':
  assumes "\<bar>x\<bar> \<le> M"
  shows "\<bar>to_double x - x\<bar> \<le> (M + 1) / 9007199254740992"
proof -
  have "(1::real) / 2 ^ 1075 \<le> 1 / 2 ^ 53"
    by simp
  with to_double_error [OF assms] have "\<bar>to_double x - x\<bar> \<le> (M + 1) / 2 ^ 53"
    by (simp add: add_divide_distrib)
  then show ?thesis by simp
qed

lemma trunc_bounds:
  assumes "- 1 < p"
  shows "0 \<le> trunc p" and "of_int (trunc p) \<le> max p 0" and "p - 1 < of_int (trunc p)"
proof -
  show "0 \<le> trunc p"
    using assms by (auto simp: trunc_def)
  show "of_int (trunc p) \<le> max p 0"
  proof (cases "0 \<le> p")
    case True
    then show ?thesis by (simp add: trunc_def)
  next
    case False
    with assms have "\<lceil>p\<rceil> = 0" by (simp add: ceiling_eq_iff)
    with False show ?thesis by (simp add: trunc_def)
  qed
  show "p - 1 < of_int (trunc p)"
  proof (cases "0 \<le> p")
    case True
    then show ?thesis by (simp add: trunc_def, linarith?)
  next
    case False
    with assms have "\<lceil>p\<rceil> = 0" by (simp add: ceiling_eq_iff)
    with False show ?thesis by (simp add: trunc_def)
  qed
qed

subsection \<open>The codec on the span\<close>

lemma scale_value: "(838860.75::real) = 3355443 / 4"
  by simp

lemma product_near:
  assumes "-10 \<le> v" "v \<le> 10"
  shows "\<bar>fmul (fadd (to_double v) 10) 838860.75 - (v + 10) * 838860.75\<bar> \<le> 1 / 100000000"
    and "\<bar>to_double v\<bar> \<le> 11"
proof -
  define x where "x = to_double v"
  define s where "s = to_double (x + 10)"
  define p where "p = to_double (s * 838860.75)"
  have "\<bar>v\<bar> \<le> 10" using assms by linarith
  from to_double_error' [OF this] have ex: "\<bar>x - v\<bar> \<le> 11 / 9007199254740992"
    by (simp add: x_def)
  have bx: "\<bar>x + 10\<bar> \<le> 21" using ex assms by linarith
  from to_double_error' [OF bx] have es: "\<bar>s - (x + 10)\<bar> \<le> 22 / 9007199254740992"
    by (simp add: s_def)
  have bs: "\<bar>s\<bar> \<le> 22" using es bx by linarith
  have bp: "\<bar>s * 838860.75\<bar> \<le> 33554432" using bs unfolding scale_value by linarith
  from to_double_error' [OF bp]
  have ep: "\<bar>p - s * 838860.75\<bar> \<le> 33554433 / 9007199254740992"
    by (simp add: p_def)
  have ab: "\<bar>s - (v + 10)\<bar> \<le> 33 / 9007199254740992"
    using ex es by linarith
  define d where "d = (s - (v + 10)) * (3355443 / 4)"
  have k: "\<bar>3355443 / 4 :: real\<bar> = 3355443 / 4"
    by simp
  have "\<bar>d\<bar> = \<bar>s - (v + 10)\<bar> * (3355443 / 4)"
    unfolding d_def abs_mult k ..
  also have "\<dots> \<le> 33 / 9007199254740992 * (3355443 / 4)"
    using ab by (rule mult_right_mono) simp
  finally have bd: "\<bar>d\<bar> \<le> 33 / 9007199254740992 * (3355443 / 4)" .
  have split: "p - (v + 10) * (3355443 / 4) = (p - s * (3355443 / 4)) + d"
    unfolding d_def left_diff_distrib by linarith
  have "\<bar>p - (v + 10) * 838860.75\<bar> \<le> 1 / 100000000"
    unfolding scale_value split using bd ep [unfolded scale_value] by linarith
  then show "\<bar>fmul (fadd (to_double v) 10) 838860.75 - (v + 10) * 838860.75\<bar> \<le> 1 / 100000000"
    by (simp add: fmul_def fadd_def p_def s_def x_def)
  show "\<bar>to_double v\<bar> \<le> 11"
    using ex assms unfolding x_def by linarith
qed

lemma encode_range:
  assumes "-10 \<le> v" "v \<le> 10"
  shows "vval_to_dacval v = Inr (Some (dac_code v))"
    and "0 \<le> dac_code v" and "dac_code v \<le> 16777215"
    and "of_int (dac_code v) \<le> (v + 10) * 838860.75 + 1 / 100000000"
    and "(v + 10) * 838860.75 - 1 - 1 / 100000000 < of_int (dac_code v)"
proof -
  define p where "p = fmul (fadd (to_double v) 10) 838860.75"
  have near: "\<bar>p - (v + 10) * 838860.75\<bar> \<le> 1 / 100000000" and bx: "\<bar>to_double v\<bar> \<le> 11"
    unfolding p_def by (rule product_near [OF assms])+
  have nn: "0 \<le> (v + 10) * 838860.75" and le: "(v + 10) * 838860.75 \<le> 16777215"
    using assms by simp_all
  have p1: "- 1 < p" and p2: "p < 16777216"
    using near nn le unfolding scale_value by linarith+
  have c: "dac_code v = trunc p"
    by (simp add: dac_code_def p_def)
  have "\<bar>to_double v\<bar> < 2 ^ 1024" using bx by simp
  moreover have "\<bar>p\<bar> < 2 ^ 1024" using p1 p2 by simp
  ultimately show "vval_to_dacval v = Inr (Some (dac_code v))"
    by (simp add: vval_to_dacval_def vval_to_dacval_body_def py_float_def py_int_def c p_def
        Let_def not_le [symmetric])
  show "0 \<le> dac_code v"
    unfolding c by (rule trunc_bounds [OF p1])
  have t2: "of_int (trunc p) \<le> max p 0" and t3: "p - 1 < of_int (trunc p)"
    by (rule trunc_bounds [OF p1])+
  have "real_of_int (trunc p) < 16777216"
    using t2 p2 by linarith
  then show "dac_code v \<le> 16777215"
    unfolding c by linarith
  show "of_int (dac_code v) \<le> (v + 10) * 838860.75 + 1 / 100000000"
    unfolding c scale_value using t2 near nn unfolding scale_value by linarith
  show "(v + 10) * 838860.75 - 1 - 1 / 100000000 < of_int (dac_code v)"
    unfolding c scale_value using t3 near unfolding scale_value by linarith
qed

lemma div_scale: "x / 838860.75 = x * (4 / 3355443)" for x :: real
  by simp

lemma six_decimals_near:
  "\<bar>of_int (round_half_even (x * 1000000)) / 1000000 - x\<bar> \<le> 1 / 2000000"
proof -
  have "\<bar>of_int (round_half_even (x * 1000000)) - x * 1000000\<bar> \<le> 1 / 2"
    by (rule round_half_even_near)
  then show ?thesis
    by (simp add: field_simps abs_le_iff)
qed

lemma decode_code:
  assumes "0 \<le> n" "n \<le> 16777215"
  shows "\<exists>w. dacval_to_vval (format_X n) = Inr (Some w) \<and>
             \<bar>w - (of_int n / 838860.75 - 10)\<bar> \<le> 1 / 2000000 + 2 / 100000000000000"
proof -
  define x0 where "x0 = to_double (of_int n)"
  define q where "q = x0 * (4 / 3355443)"
  define x1 where "x1 = to_double q"
  define x2 where "x2 = to_double (x1 - 10)"
  define r where "r = real_of_int (round_half_even (x2 * 1000000)) / 1000000"
  define w where "w = to_double r"
  have n: "0 \<le> real_of_int n" "real_of_int n \<le> 16777215"
    using assms by simp_all
  then have "\<bar>real_of_int n\<bar> \<le> 16777215" by linarith
  from to_double_error' [OF this] have e0: "\<bar>x0 - of_int n\<bar> \<le> 16777216 / 9007199254740992"
    by (simp add: x0_def)
  define d where "d = (x0 - of_int n) * (4 / 3355443)"
  have k: "\<bar>4 / 3355443 :: real\<bar> = 4 / 3355443"
    by simp
  have "\<bar>d\<bar> = \<bar>x0 - of_int n\<bar> * (4 / 3355443)"
    unfolding d_def abs_mult k ..
  also have "\<dots> \<le> 16777216 / 9007199254740992 * (4 / 3355443)"
    using e0 by (rule mult_right_mono) simp
  finally have bd: "\<bar>d\<bar> \<le> 16777216 / 9007199254740992 * (4 / 3355443)" .
  define t where "t = real_of_int n * (4 / 3355443)"
  have t: "0 \<le> t" "t \<le> 20"
    using n by (simp_all add: t_def)
  have qd: "q = t + d"
    unfolding q_def d_def t_def left_diff_distrib by linarith
  have bq: "\<bar>q\<bar> \<le> 21" using qd bd t by linarith
  from to_double_error' [OF bq] have e1: "\<bar>x1 - q\<bar> \<le> 22 / 9007199254740992"
    by (simp add: x1_def)
  have b1: "\<bar>x1 - 10\<bar> \<le> 32" using e1 bq by linarith
  from to_double_error' [OF b1] have e2: "\<bar>x2 - (x1 - 10)\<bar> \<le> 33 / 9007199254740992"
    by (simp add: x2_def)
  have er: "\<bar>r - x2\<bar> \<le> 1 / 2000000"
    unfolding r_def by (rule six_decimals_near)
  have br: "\<bar>r\<bar> \<le> 34" using er e2 b1 by linarith
  from to_double_error' [OF br] have ew: "\<bar>w - r\<bar> \<le> 35 / 9007199254740992"
    by (simp add: w_def)
  have bound: "\<bar>w - (t - 10)\<bar> \<le> 1 / 2000000 + 2 / 100000000000000"
    using ew er e2 e1 qd bd by linarith
  have "\<bar>n\<bar> < 2 ^ 1024 - 2 ^ 970"
    using assms by simp
  then have "dacval_to_vval (format_X n) = Inr (Some w)"
    using assms(1)
    by (simp add: dacval_to_vval_def dacval_to_vval_body_def int16_format_X int_to_float_def
        round6_def fsub_def fdiv_def div_scale w_def r_def x2_def x1_def q_def x0_def)
  with bound show ?thesis
    by (simp add: t_def div_scale)
qed

text \<open>
  Claim C1, as amended. For every voltage \<open>v\<close> in \<open>[-10, 10]\<close> the round trip
  (encode, format as hexadecimal text, decode), computed in double arithmetic, returns a
  voltage \<open>w\<close>, and \<open>w\<close> differs from \<open>v\<close> by less than one code step plus half a unit
  of the sixth decimal plus \<open>10^-13\<close> for the rounding of the float operations:
  \<open>1 / 838860.75 + 0.0000005 + 10^-13\<close>, about \<open>0.0000017\<close>. The tolerance \<open>0.000001\<close> does
  not hold: the encoder truncates, which alone loses up to \<open>1 / 838860.75\<close>, about
  \<open>0.0000012\<close>.
\<close>

theorem roundtrip_error_bound:
  assumes "-10 \<le> v" "v \<le> 10"
  shows "\<exists>w. roundtrip v = Inr (Some w) \<and>
             \<bar>w - v\<bar> < 1 / 838860.75 + 1 / 2000000 + 1 / 10000000000000"
proof -
  define n where "n = dac_code v"
  have enc: "vval_to_dacval v = Inr (Some n)"
    and n0: "0 \<le> n" and n1: "n \<le> 16777215"
    and up: "of_int n \<le> (v + 10) * 838860.75 + 1 / 100000000"
    and lo: "(v + 10) * 838860.75 - 1 - 1 / 100000000 < of_int n"
    unfolding n_def by (rule encode_range [OF assms])+
  obtain w where dec: "dacval_to_vval (format_X n) = Inr (Some w)"
    and near: "\<bar>w - (of_int n / 838860.75 - 10)\<bar> \<le> 1 / 2000000 + 2 / 100000000000000"
    using decode_code [OF n0 n1] by blast
  define t where "t = real_of_int n * (4 / 3355443)"
  have up': "t \<le> v + 10 + 1 / 100000000 * (4 / 3355443)"
    unfolding t_def using up [unfolded scale_value distrib_right] by linarith
  have lo': "v + 10 - 4 / 3355443 - 1 / 100000000 * (4 / 3355443) < t"
    unfolding t_def using lo [unfolded scale_value distrib_right] by linarith
  have "\<bar>w - v\<bar> < 4 / 3355443 + 1 / 2000000 + 1 / 10000000000000"
    using near [unfolded div_scale, folded t_def] up' lo' by linarith
  then have "\<bar>w - v\<bar> < 1 / 838860.75 + 1 / 2000000 + 1 / 10000000000000"
    by simp
  moreover have "roundtrip v = Inr (Some w)"
    by (simp add: roundtrip_def enc dec)
  ultimately show ?thesis by blast
qed

theorem roundtrip_witness:
  "(-10::real) \<le> 0 \<and> (0::real) \<le> 10 \<and>
   (\<exists>w. roundtrip 0 = Inr (Some w) \<and> \<bar>w - 0\<bar> < 2 / 1000000)"
proof -
  obtain w where "roundtrip 0 = Inr (Some w)"
    and "\<bar>w - 0\<bar> < 1 / 838860.75 + 1 / 2000000 + 1 / 10000000000000"
    using roundtrip_error_bound [of 0] by auto
  moreover have "(1::real) / 838860.75 + 1 / 2000000 + 1 / 10000000000000 < 2 / 1000000"
    by simp
  ultimately show ?thesis by force
qed

text \<open>
  The voltage \<^verbatim>\<open>-9.999899\<close> lies on the grid of resolution \<open>0.000001\<close>. As a double it
  is \<open>-351840167266739 / 2^45\<close>. It is encoded as code 84, written \<^verbatim>\<open>54\<close>, which decodes
  to the double of \<^verbatim>\<open>-9.9999\<close>: the round trip is off by \<open>281474977 / 2^48\<close>, more than
  \<open>0.000001\<close>.
\<close>

lemma grid_double:
  "to_double (- (9999899 / 1000000)) = - (351840167266739 / 35184372088832)"
  "to_double (- (351840167266739 / 35184372088832)) = - (351840167266739 / 35184372088832)"
  by (simp_all add: to_double_def exponent.simps round_half_even_def)

lemma grid_encode_steps:
  "fadd (- (351840167266739 / 35184372088832)) 10 = 3553621581 / 35184372088832"
  "fmul (3553621581 / 35184372088832) (3355443 / 4) = 1490496832326923 / 17592186044416"
  "trunc (1490496832326923 / 17592186044416) = 84"
  by (simp_all add: fadd_def fmul_def to_double_def exponent.simps round_half_even_def trunc_def)

lemma grid_encode: "vval_to_dacval (- (351840167266739 / 35184372088832)) = Inr (Some 84)"
  by (simp add: vval_to_dacval_def vval_to_dacval_body_def py_float_def py_int_def
      grid_double grid_encode_steps)

lemma hex_84: "format_X 84 = ''54''"
  by code_simp

lemma int16_54: "int16 (strip ''54'') = Inr 84"
  by (simp add: int16_def strip_def isspace_def skip_prefix_def parse_number_def digit_value_def)

lemma grid_decode_steps:
  "to_double 84 = 84"
  "fdiv 84 (3355443 / 4) = 3694359289528333 / 36893488147419103232"
  "fsub (3694359289528333 / 36893488147419103232) 10 = - (175920098836375 / 17592186044416)"
  "round6 (- (175920098836375 / 17592186044416)) = - (2814721619608889 / 281474976710656)"
  by (simp_all add: fdiv_def fsub_def round6_def to_double_def exponent.simps round_half_even_def)

lemma grid_decode: "dacval_to_vval ''54'' = Inr (Some (- (2814721619608889 / 281474976710656)))"
  by (simp add: dacval_to_vval_def dacval_to_vval_body_def int16_54 int_to_float_def
      grid_decode_steps)

theorem roundtrip_counterexample:
  "to_double (-9.999899) = - 351840167266739 / 35184372088832 \<and>
   (-10::real) \<le> - 351840167266739 / 35184372088832 \<and>
   (- 351840167266739 / 35184372088832 :: real) \<le> 10 \<and>
   roundtrip (- 351840167266739 / 35184372088832) =
     Inr (Some (- 2814721619608889 / 281474976710656)) \<and>
   \<not> \<bar>(- 2814721619608889 / 281474976710656) - (- 351840167266739 / 35184372088832 :: real)\<bar>
       \<le> 1 / 1000000"
  by (simp add: roundtrip_def grid_double grid_encode hex_84 grid_decode)

text \<open>
  Claim C8. The encoder maps the ends of the span to the exact codes: \<open>-10\<close> to \<open>0\<close> and
  \<open>10\<close> to \<open>16777215\<close>, which is \<open>2^24 - 1\<close>.
\<close>

theorem encode_endpoints:
  "vval_to_dacval (-10) = Inr (Some 0) \<and> vval_to_dacval 10 = Inr (Some 16777215) \<and>
   (16777215 :: int) = 2 ^ 24 - 1"
  by (simp add: vval_to_dacval_def vval_to_dacval_body_def py_float_def py_int_def fadd_def
      fmul_def to_double_def exponent.simps round_half_even_def trunc_def)

subsection \<open>Decoding text that is not hexadecimal\<close>

lemma dacval_to_vval_returns: "\<exists>r. dacval_to_vval raw = Inr r"
  by (simp add: dacval_to_vval_def split: sum.splits)

text \<open>
  Claim C7, as amended. The decoder never raises. For every reply that \<^verbatim>\<open>int(.., 16)\<close>
  does not accept as hexadecimal text, after stripping the surrounding whitespace, the
  parse error is caught inside the method and the method returns \<^verbatim>\<open>None\<close>: the caller
  gets no voltage, and no error either.
\<close>

theorem dacval_to_vval_invalid:
  "(\<exists>r. dacval_to_vval raw = Inr r) \<and>
   (int16 (strip raw) = Inl e \<longrightarrow> dacval_to_vval raw = Inr None)"
  by (simp add: dacval_to_vval_def dacval_to_vval_body_def split: sum.splits)

lemma int16_zz: "int16 (strip ''zz'') = Inl ValueError"
  by (simp add: int16_def strip_def isspace_def skip_prefix_def parse_number_def digit_value_def)

theorem dacval_to_vval_invalid_witness:
  "int16 (strip ''zz'') = Inl ValueError \<and> dacval_to_vval ''zz'' = Inr None"
  using dacval_to_vval_invalid [of "''zz''" ValueError] int16_zz by simp

text \<open>
  The reply \<^verbatim>\<open>7FFFFG\<close> is not hexadecimal text. The decoder does not fail on it: it
  returns \<^verbatim>\<open>None\<close>.
\<close>

lemma int16_malformed: "int16 (strip ''7FFFFG'') = Inl ValueError"
  by (simp add: int16_def strip_def isspace_def skip_prefix_def parse_number_def digit_value_def)

theorem dacval_to_vval_invalid_counterexample:
  "int16 (strip ''7FFFFG'') = Inl ValueError \<and> dacval_to_vval ''7FFFFG'' = Inr None \<and>
   \<not> isl (dacval_to_vval ''7FFFFG'')"
  by (simp add: dacval_to_vval_def dacval_to_vval_body_def int16_malformed)

subsection \<open>Traces of the write path\<close>

lemma wr_cmds_append: "wr_cmds (xs @ ys) = wr_cmds xs @ wr_cmds ys"
  by (induction xs rule: wr_cmds.induct) simp_all

lemma SP1060_write_trace:
  "SP1060_write dev cmd tr = (dev (tr @ [Clear, Wr cmd, Rd]), tr @ [Clear, Wr cmd, Rd])"
  by (simp add: SP1060_write_def ask_def visa_read_def empty_buffer_def)

lemma wr_cmds_write: "wr_cmds (snd (SP1060_write dev cmd tr)) = wr_cmds tr @ [cmd]"
  by (simp add: SP1060_write_trace wr_cmds_append)

lemma wr_cmds_write_seq: "wr_cmds (write_seq dev cs tr) = wr_cmds tr @ cs"
proof (induction dev cs tr rule: write_seq.induct)
  case (1 dev tr)
  then show ?case by simp
next
  case (2 dev c tr)
  then show ?case by (simp add: wr_cmds_write)
next
  case (3 dev c v va tr)
  then show ?case
    by (simp only: write_seq.simps wr_cmds_write wr_cmds_append wr_cmds.simps append_assoc
        append.simps append_Nil2)
qed

subsection \<open>Programming a waveform\<close>

text \<open>
  Claim C4, on the code. With bank selector \<^verbatim>\<open>'0'\<close> the commands that save, write and
  start carry the letter A, but the first command of the sequence is
  \<^verbatim>\<open>C WAV-B CLR\<close> whatever the selector: it names wave memory B.
\<close>

theorem set_newWaveform_bank0:
  "wr_cmds (set_newWaveform dev channel waveform frequency amplitude ''0'' tr) =
     wr_cmds tr @
     [''C WAV-B CLR'', ''C SWG MODE 0'', ''C SWG WF '' @ waveform, ''C SWG DF '' @ frequency,
      ''C SWG AMP '' @ amplitude, ''C SWG WMEM 0'', ''C SWG WFUN 0'', ''C SWG LIN '' @ channel,
      ''C AWG-A CH '' @ channel, ''C SWG APPLY'', ''C WAV-A SAVE'', ''C WAV-A WRITE'',
      ''C AWG-A START''] \<and>
   contains ''C WAV-B CLR'' ''WAV-B'' \<and> \<not> contains ''C WAV-B CLR'' ''WAV-A''"
  unfolding set_newWaveform_def wr_cmds_write_seq
  by (simp add: newWaveform_cmds_def memsave_of_def)

subsection \<open>Splitting the status reply\<close>

lemma split_on_no_sep: "sep \<notin> set t \<Longrightarrow> split_on sep t = [t]"
  by (induction t) auto

lemma split_on_token: "sep \<notin> set t \<Longrightarrow> split_on sep (t @ sep # rest) = t # split_on sep rest"
  by (induction t) auto

lemma split_on_join_semi:
  "ts \<noteq> [] \<Longrightarrow> \<forall>t \<in> set ts. CHR '';'' \<notin> set t \<Longrightarrow> split_on CHR '';'' (join_semi ts) = ts"
  by (induction ts rule: join_semi.induct) (simp_all add: split_on_no_sep split_on_token)

lemma remove_crlf_id: "\<not> has_crlf s \<Longrightarrow> remove_crlf s = s"
  by (induction s rule: remove_crlf.induct) auto

lemma has_crlf_sep: "has_crlf (t @ CHR '';'' # r) = (has_crlf t \<or> has_crlf r)"
proof (induction t rule: has_crlf.induct)
  case (1 a b cs)
  then show ?case by simp
qed (cases r; simp)+

lemma has_crlf_join_semi:
  "\<forall>t \<in> set ts. \<not> has_crlf t \<Longrightarrow> \<not> has_crlf (join_semi ts)"
  by (induction ts rule: join_semi.induct) (simp_all add: has_crlf_sep)

text \<open>
  Claim C9. When the reply to \<^verbatim>\<open>All S?\<close> is 24 status tokens separated by semicolons,
  \<^verbatim>\<open>query_all\<close> returns exactly those 24 tokens, in the same order. A token holds no
  semicolon, and no carriage return followed by a line feed: the reply is one line read
  up to that terminator.
\<close>

theorem query_all_tokens:
  assumes "length ts = 24"
    and "\<forall>t \<in> set ts. CHR '';'' \<notin> set t \<and> \<not> has_crlf t"
    and "dev (tr @ [Clear, Wr ''All S?'', Rd]) = join_semi ts"
  shows "fst (query_all dev tr) = ts \<and> length (fst (query_all dev tr)) = 24"
proof -
  have ne: "ts \<noteq> []"
  proof
    assume "ts = []"
    with assms(1) show False by simp
  qed
  have "remove_crlf (join_semi ts) = join_semi ts"
    using assms(2) by (simp add: remove_crlf_id has_crlf_join_semi)
  then have "fst (query_all dev tr) = split_on CHR '';'' (join_semi ts)"
    using assms(3) by (simp add: query_all_def SP1060_write_trace)
  then show ?thesis
    using ne assms(1,2) by (simp add: split_on_join_semi)
qed

theorem query_all_tokens_witness:
  "fst (query_all (\<lambda>tr. ''ON;ON;ON;ON;ON;ON;ON;ON;ON;ON;ON;ON;ON;ON;ON;ON;ON;ON;ON;ON;ON;ON;ON;OFF'') []) =
     [''ON'', ''ON'', ''ON'', ''ON'', ''ON'', ''ON'', ''ON'', ''ON'', ''ON'', ''ON'', ''ON'', ''ON'', ''ON'', ''ON'', ''ON'', ''ON'', ''ON'', ''ON'', ''ON'', ''ON'', ''ON'', ''ON'', ''ON'', ''OFF'']"
proof -
  let ?ts = "[''ON'', ''ON'', ''ON'', ''ON'', ''ON'', ''ON'', ''ON'', ''ON'', ''ON'', ''ON'', ''ON'', ''ON'', ''ON'', ''ON'', ''ON'', ''ON'', ''ON'', ''ON'', ''ON'', ''ON'', ''ON'', ''ON'', ''ON'', ''OFF'']"
  have a: "length ?ts = 24" by simp
  have b: "\<forall>t \<in> set ?ts. CHR '';'' \<notin> set t \<and> \<not> has_crlf t" by simp
  have c: "(\<lambda>tr. ''ON;ON;ON;ON;ON;ON;ON;ON;ON;ON;ON;ON;ON;ON;ON;ON;ON;ON;ON;ON;ON;ON;ON;OFF'') ([] @ [Clear, Wr ''All S?'', Rd]) = join_semi ?ts"
    by simp
  from query_all_tokens [OF a b c] show ?thesis by simp
qed

subsection \<open>The voltage bounds of a channel\<close>

text \<open>
  Claim C10. Constructing a channel with inverted bounds does not fail: for a channel
  number in \<open>1..24\<close> and \<open>max_val < min_val\<close> the constructor returns the same channel as
  for the bounds in the right order, and its validator is \<open>[max_val, min_val]\<close>.
\<close>

theorem SP1060Channel_init_inverted:
  assumes "1 \<le> chan" "chan \<le> 24" "max_val < min_val"
  shows "\<exists>ch. SP1060Channel_init nm chan min_val max_val = Inr ch \<and>
              SP1060Channel_init nm chan max_val min_val = Inr ch \<and>
              volt_val ch = \<lparr>min_value = max_val, max_value = min_val\<rparr> \<and>
              vals (volt ch) = volt_val ch"
  using assms by (simp add: SP1060Channel_init_def Ints_validate_def Numbers_def min_def max_def)

theorem SP1060Channel_init_inverted_witness:
  "(1::int) \<le> 12 \<and> (12::int) \<le> 24 \<and> (-10::real) < 10 \<and>
   (\<exists>ch. SP1060Channel_init ''chan12'' 12 10 (-10) = Inr ch \<and>
         SP1060Channel_init ''chan12'' 12 (-10) 10 = Inr ch \<and>
         volt_val ch = \<lparr>min_value = -10, max_value = 10\<rparr>)"
  using SP1060Channel_init_inverted [of 12 "-10" 10 "''chan12''"] by auto

text \<open>
  Claim C3. A set request for a value outside the interval of the channel's validator is
  refused with a range error, and the trace of the transport is left as it was: nothing
  is written.
\<close>

theorem volt_set_out_of_range:
  assumes "v < min_value (vals (volt ch)) \<or> max_value (vals (volt ch)) < v"
  shows "volt_set dev ch v tr = (Inl ValueError, tr)"
  using assms by (auto simp: volt_set_def validate_def)

theorem volt_set_out_of_range_witness:
  "volt_set (\<lambda>tr. [])
     \<lparr>name = ''chan12'', channel_no = 12, volt_val = \<lparr>min_value = -10, max_value = 10\<rparr>,
      volt = \<lparr>vals = \<lparr>min_value = -10, max_value = 10\<rparr>, step = Some 0.01,
              inter_delay = 0.02, cache = Some 0\<rparr>\<rparr> 11 [] = (Inl ValueError, [])"
  using volt_set_out_of_range [of 11 "\<lparr>name = ''chan12'', channel_no = 12, volt_val = \<lparr>min_value = -10, max_value = 10\<rparr>,
      volt = \<lparr>vals = \<lparr>min_value = -10, max_value = 10\<rparr>, step = Some 0.01,
              inter_delay = 0.02, cache = Some 0\<rparr>\<rparr>" "\<lambda>tr. []" "[]"]
  by simp

subsection \<open>The discipline of a trace\<close>

lemma disciplined_Cons: "disciplined ys \<Longrightarrow> \<forall>c. e \<noteq> Wr c \<Longrightarrow> disciplined (e # ys)"
  by (cases "e # ys" rule: disciplined.cases) auto

lemma disciplined_append: "disciplined xs \<Longrightarrow> disciplined ys \<Longrightarrow> disciplined (xs @ ys)"
  by (induction xs rule: disciplined.induct) (auto simp: disciplined_Cons)

lemma continues_refl: "continues tr tr"
  by (simp add: continues_def)

lemma continues_app: "disciplined ext \<Longrightarrow> continues tr (tr @ ext)"
  by (simp add: continues_def)

lemma continues_trans: "continues a b \<Longrightarrow> continues b c \<Longrightarrow> continues a c"
proof -
  assume ab: "continues a b" and bc: "continues b c"
  obtain x where x: "b = a @ x" "disciplined x"
    using ab by (metis append_take_drop_id continues_def)
  obtain y where y: "c = b @ y" "disciplined y"
    using bc by (metis append_take_drop_id continues_def)
  have "c = a @ (x @ y)" using x y by simp
  moreover have "disciplined (x @ y)" using x y by (simp add: disciplined_append)
  ultimately show ?thesis by (simp add: continues_def)
qed

lemma continues_disciplined: "disciplined tr \<Longrightarrow> continues tr tr' \<Longrightarrow> disciplined tr'"
  by (metis append_take_drop_id continues_def disciplined_append)

lemma continues_write: "continues tr (snd (SP1060_write dev cmd tr))"
  by (simp add: SP1060_write_trace continues_def)

lemma continues_event: "\<forall>c. e \<noteq> Wr c \<Longrightarrow> continues tr (tr @ [e])"
  by (simp add: continues_def disciplined_Cons)

lemma continues_then_event: "continues tr tr' \<Longrightarrow> \<forall>c. e \<noteq> Wr c \<Longrightarrow> continues tr (tr' @ [e])"
  by (rule continues_trans [OF _ continues_event])

lemma continues_then_write:
  "continues tr tr' \<Longrightarrow> continues tr (snd (SP1060_write dev cmd tr'))"
  by (rule continues_trans [OF _ continues_write])

lemma set_voltage_trace:
  "continues tr (snd (set_voltage dev chan code tr))"
  "wr_cmds (snd (set_voltage dev chan (Some c) tr)) = wr_cmds tr @ [format_d chan @ '' '' @ format_X c]"
  "fst (set_voltage dev chan (Some c) tr) = Inr ()"
  by (simp_all add: set_voltage_def continues_write continues_refl wr_cmds_write split: option.splits)

lemma read_voltage_trace:
  "continues tr (snd (read_voltage dev chan tr))"
  "wr_cmds (snd (read_voltage dev chan tr)) = wr_cmds tr @ [format_d chan @ '' V?'']"
  "\<exists>r. fst (read_voltage dev chan tr) = Inr r"
  using dacval_to_vval_returns
  by (simp_all add: read_voltage_def SP1060_write_trace continues_def wr_cmds_append)

lemma query_all_trace:
  "continues tr (snd (query_all dev tr))"
  "wr_cmds (snd (query_all dev tr)) = wr_cmds tr @ [''All S?'']"
  by (simp_all add: query_all_def SP1060_write_trace continues_def wr_cmds_append)

lemma all_on_trace:
  "continues tr (all_on dev tr)"
  "wr_cmds (all_on dev tr) = wr_cmds tr @ [''ALL ON'']"
  by (simp_all add: all_on_def SP1060_write_trace continues_def wr_cmds_append)

lemma all_off_trace:
  "continues tr (all_off dev tr)"
  "wr_cmds (all_off dev tr) = wr_cmds tr @ [''ALL OFF'']"
  by (simp_all add: all_off_def SP1060_write_trace continues_def wr_cmds_append)

lemma get_serial_trace:
  "continues tr (snd (get_serial dev tr))"
  "wr_cmds (snd (get_serial dev tr)) = wr_cmds tr @ [''HARD?'']"
  by (simp_all add: get_serial_def SP1060_write_trace visa_read_def empty_buffer_def
      continues_def wr_cmds_append)

lemma get_firmware_trace:
  "continues tr (snd (get_firmware dev tr))"
  "wr_cmds (snd (get_firmware dev tr)) = wr_cmds tr @ [''SOFT?'']"
  by (simp_all add: get_firmware_def SP1060_write_trace visa_read_def empty_buffer_def
      continues_def wr_cmds_append Let_def)

lemma get_idn_trace:
  "continues tr (snd (get_idn dev tr))"
  "wr_cmds (snd (get_idn dev tr)) = wr_cmds tr @ [''HARD?'', ''SOFT?'']"
proof -
  have "snd (get_idn dev tr) = snd (get_firmware dev (snd (get_serial dev tr)))"
    by (simp add: get_idn_def split: prod.splits)
  then show "continues tr (snd (get_idn dev tr))"
    "wr_cmds (snd (get_idn dev tr)) = wr_cmds tr @ [''HARD?'', ''SOFT?'']"
    using continues_trans [OF get_serial_trace(1) get_firmware_trace(1)]
    by (simp_all add: get_serial_trace get_firmware_trace)
qed

lemma continues_write_seq: "continues tr (write_seq dev cs tr)"
proof (induction dev cs tr rule: write_seq.induct)
  case (1 dev tr)
  then show ?case by (simp add: continues_refl)
next
  case (2 dev c tr)
  then show ?case by (simp add: continues_write)
next
  case (3 dev c v va tr)
  have "continues tr (snd (SP1060_write dev c tr) @ [Sleep 0.01])"
    by (rule continues_then_event [OF continues_write]) simp
  from continues_trans [OF this 3] show ?case
    by (simp only: write_seq.simps)
qed

lemma set_newWaveform_trace:
  "continues tr (set_newWaveform dev channel waveform frequency amplitude wavemem tr)"
  by (simp add: set_newWaveform_def continues_write_seq)

subsection \<open>Sending the values of a ramp\<close>

lemma vval_to_dacval_Some:
  "-10 \<le> v \<Longrightarrow> v \<le> 10 \<Longrightarrow> vval_to_dacval v = Inr (Some (dac_code v))"
  by (rule encode_range)

lemma vval_to_dacval_returns: "\<exists>r. vval_to_dacval v = Inr r"
  by (simp add: vval_to_dacval_def split: sum.splits)

lemma set_voltage_Some:
  "set_voltage dev chan (Some c) tr =
     (Inr (), snd (SP1060_write dev (format_d chan @ '' '' @ format_X c) tr))"
  by (simp add: set_voltage_def)

lemma send_steps_unfold:
  "-10 \<le> v \<Longrightarrow> v \<le> 10 \<Longrightarrow>
   send_steps dev ch (v # vs) tr =
     send_steps dev (ch\<lparr>volt := (volt ch)\<lparr>cache := Some v\<rparr>\<rparr>) vs
       (if vs = [] then snd (SP1060_write dev (volt_command (channel_no ch) v) tr)
        else snd (SP1060_write dev (volt_command (channel_no ch) v) tr)
             @ [Sleep (inter_delay (volt ch))])"
  by (simp only: send_steps.simps vval_to_dacval_Some sum.case set_voltage_Some prod.case
      volt_command_def)

lemma send_steps_continues: "continues tr (snd (send_steps dev ch vs tr))"
proof (induction vs arbitrary: ch tr)
  case Nil
  then show ?case by (simp add: continues_refl)
next
  case (Cons v vs)
  obtain code where code: "vval_to_dacval v = Inr code"
    using vval_to_dacval_returns by blast
  obtain r tr' where r: "set_voltage dev (channel_no ch) code tr = (r, tr')"
    by (cases "set_voltage dev (channel_no ch) code tr")
  have a: "continues tr tr'"
    using set_voltage_trace(1) [of tr dev "channel_no ch" code] r by simp
  show ?case
  proof (cases r)
    case (Inl e)
    with code r a show ?thesis by simp
  next
    case (Inr u)
    let ?tr'' = "if vs = [] then tr' else tr' @ [Sleep (inter_delay (volt ch))]"
    have b: "continues tr ?tr''"
      using a by (simp add: continues_then_event)
    have "continues ?tr''
        (snd (send_steps dev (ch\<lparr>volt := (volt ch)\<lparr>cache := Some v\<rparr>\<rparr>) vs ?tr''))"
      by (rule Cons.IH)
    with b have "continues tr
        (snd (send_steps dev (ch\<lparr>volt := (volt ch)\<lparr>cache := Some v\<rparr>\<rparr>) vs ?tr''))"
      by (rule continues_trans)
    with code r Inr show ?thesis by simp
  qed
qed

lemma send_steps_fst:
  "\<forall>v \<in> set vs. -10 \<le> v \<and> v \<le> 10 \<Longrightarrow>
   fst (send_steps dev ch vs tr) =
     Inr (if vs = [] then ch else ch\<lparr>volt := (volt ch)\<lparr>cache := Some (last vs)\<rparr>\<rparr>)"
proof (induction vs arbitrary: ch tr)
  case Nil
  then show ?case by simp
next
  case (Cons v vs)
  have v: "-10 \<le> v" "v \<le> 10" and vs: "\<forall>v \<in> set vs. -10 \<le> v \<and> v \<le> 10"
    using Cons.prems by simp_all
  show ?case
    unfolding send_steps_unfold [OF v] Cons.IH [OF vs] by simp
qed

lemma send_steps_cmds:
  "\<forall>v \<in> set vs. -10 \<le> v \<and> v \<le> 10 \<Longrightarrow>
   wr_cmds (snd (send_steps dev ch vs tr)) = wr_cmds tr @ map (volt_command (channel_no ch)) vs"
proof (induction vs arbitrary: ch tr)
  case Nil
  then show ?case by simp
next
  case (Cons v vs)
  have v: "-10 \<le> v" "v \<le> 10" and vs: "\<forall>v \<in> set vs. -10 \<le> v \<and> v \<le> 10"
    using Cons.prems by simp_all
  show ?case
    unfolding send_steps_unfold [OF v] Cons.IH [OF vs]
    by (simp add: wr_cmds_write wr_cmds_append)
qed

lemma volt_set_continues: "continues tr (snd (volt_set dev ch v tr))"
  by (simp add: volt_set_def continues_refl send_steps_continues split: sum.splits)

lemma volt_get_continues: "continues tr (snd (snd (volt_get dev ch tr)))"
proof -
  have "snd (snd (volt_get dev ch tr)) = snd (read_voltage dev (channel_no ch) tr)"
    by (simp add: volt_get_def split: prod.splits sum.splits option.splits)
  then show ?thesis by (simp add: read_voltage_trace)
qed

lemma volt_get_result:
  "\<exists>r ch'. volt_get dev ch tr = (Inr r, ch', snd (read_voltage dev (channel_no ch) tr)) \<and>
            channel_no ch' = channel_no ch \<and> vals (volt ch') = vals (volt ch) \<and>
            step (volt ch') = step (volt ch) \<and> inter_delay (volt ch') = inter_delay (volt ch)"
proof -
  obtain x tr' where x: "read_voltage dev (channel_no ch) tr = (x, tr')"
    by (cases "read_voltage dev (channel_no ch) tr")
  obtain r where "fst (read_voltage dev (channel_no ch) tr) = Inr r"
    using read_voltage_trace(3) by blast
  with x have r: "x = Inr r" by simp
  show ?thesis
    unfolding volt_get_def x r by (cases r) simp_all
qed

subsection \<open>The ramp\<close>

lemma ramp_not_Nil: "ramp cur target st \<noteq> []"
  by (subst ramp.simps) simp

lemma ramp_last: "last (ramp cur target st) = target"
proof (induction cur target st rule: ramp.induct)
  case (1 cur target st)
  show ?case
    by (subst ramp.simps) (simp add: 1 ramp_not_Nil)
qed

lemma ramp_within: "0 < st \<Longrightarrow> steps_within st cur (ramp cur target st)"
proof (induction cur target st rule: ramp.induct)
  case (1 cur target st)
  show ?case
  proof (cases "st < \<bar>target - cur\<bar>")
    case False
    with 1(3) show ?thesis
      by (subst ramp.simps) (simp add: abs_minus_commute)
  next
    case True
    with 1 show ?thesis
      by (subst ramp.simps) simp
  qed
qed

lemma ramp_towards: "steps_towards target cur (ramp cur target st)"
proof (induction cur target st rule: ramp.induct)
  case (1 cur target st)
  show ?case
  proof (cases "0 < st \<and> st < \<bar>target - cur\<bar>")
    case False
    then show ?thesis
      by (subst ramp.simps) auto
  next
    case True
    with 1 show ?thesis
      by (subst ramp.simps) auto
  qed
qed

lemma ramp_length:
  "0 < st \<Longrightarrow> length (ramp cur target st) = max 1 (nat \<lceil>\<bar>target - cur\<bar> / st\<rceil>)"
proof (induction cur target st rule: ramp.induct)
  case (1 cur target st)
  show ?case
  proof (cases "st < \<bar>target - cur\<bar>")
    case False
    then have "\<bar>target - cur\<bar> / st \<le> 1"
      using 1(3) by simp
    then have "\<lceil>\<bar>target - cur\<bar> / st\<rceil> \<le> 1"
      by (simp add: ceiling_le_iff)
    then have "max 1 (nat \<lceil>\<bar>target - cur\<bar> / st\<rceil>) = 1"
      by linarith
    with False show ?thesis
      by (subst ramp.simps) simp
  next
    case True
    define nxt where "nxt = (if cur < target then cur + st else cur - st)"
    have d: "\<bar>target - nxt\<bar> / st = \<bar>target - cur\<bar> / st - 1"
      using True 1(3) by (simp add: nxt_def field_simps)
    have "1 < \<bar>target - cur\<bar> / st"
      using True 1(3) by simp
    then have c: "2 \<le> \<lceil>\<bar>target - cur\<bar> / st\<rceil>"
      by linarith
    have "\<lceil>\<bar>target - nxt\<bar> / st\<rceil> = \<lceil>\<bar>target - cur\<bar> / st\<rceil> - 1"
      unfolding d by (simp add: ceiling_diff_one)
    with c have m: "Suc (max 1 (nat \<lceil>\<bar>target - nxt\<bar> / st\<rceil>)) = max 1 (nat \<lceil>\<bar>target - cur\<bar> / st\<rceil>)"
      by linarith
    have l1: "length (ramp cur target st) = Suc (length (ramp nxt target st))"
      using True 1(3) by (subst ramp.simps) (simp add: nxt_def)
    have l2: "length (ramp nxt target st) = max 1 (nat \<lceil>\<bar>target - nxt\<bar> / st\<rceil>)"
      using 1 True by (simp add: nxt_def)
    show ?thesis
      unfolding l1 l2 by (rule m)
  qed
qed

lemma ramp_between:
  "\<forall>x \<in> set (ramp cur target st). min cur target \<le> x \<and> x \<le> max cur target"
proof (induction cur target st rule: ramp.induct)
  case (1 cur target st)
  show ?case
  proof (cases "0 < st \<and> st < \<bar>target - cur\<bar>")
    case False
    then show ?thesis
      by (subst ramp.simps) auto
  next
    case True
    show ?thesis
    proof (cases "cur < target")
      case lt: True
      have "\<forall>x \<in> set (ramp (cur + st) target st).
          min (cur + st) target \<le> x \<and> x \<le> max (cur + st) target"
        using 1(1) True lt by simp
      with True lt show ?thesis
        by (subst ramp.simps) (auto simp: min_def max_def)
    next
      case ge: False
      have "\<forall>x \<in> set (ramp (cur - st) target st).
          min (cur - st) target \<le> x \<and> x \<le> max (cur - st) target"
        using 1(2) True ge by simp
      with True ge show ?thesis
        by (subst ramp.simps) (auto simp: min_def max_def)
    qed
  qed
qed

lemma ramp_0_1:
  "length (ramp 0 1 0.01) = 100"
  "last (ramp 0 1 0.01) = 1"
  "steps_within 0.01 0 (ramp 0 1 0.01)"
  "steps_towards 1 0 (ramp 0 1 0.01)"
  by (simp_all add: ramp_length ramp_last ramp_within ramp_towards)


lemma ramp_0_1_range: "\<forall>x \<in> set (ramp 0 1 0.01). -10 \<le> x \<and> x \<le> 10"
proof
  fix x
  assume "x \<in> set (ramp 0 1 0.01)"
  with ramp_between [of 0 1 "0.01"] have "min 0 1 \<le> x \<and> x \<le> max 0 1"
    by blast
  then show "-10 \<le> x \<and> x \<le> 10" by simp
qed

subsection \<open>The constructor of the device\<close>

lemma make_channels_ok:
  "\<forall>i \<in> set ns. 1 \<le> i \<and> i \<le> 24 \<Longrightarrow>
   \<exists>chs. make_channels ns = Inr chs \<and>
     map settings chs = map (\<lambda>i. (i, \<lparr>min_value = -10, max_value = 10\<rparr>, None, 0)) ns"
proof (induction ns)
  case Nil
  then show ?case by simp
next
  case (Cons i ns)
  then obtain chs where chs: "make_channels ns = Inr chs"
    "map settings chs = map (\<lambda>i. (i, \<lparr>min_value = -10, max_value = 10\<rparr>, None, 0)) ns"
    by auto
  have i: "1 \<le> i" "i \<le> 24"
    using Cons.prems by simp_all
  have "settings \<lparr>name = nm, channel_no = i, volt_val = nv,
      volt = \<lparr>vals = nv, step = None, inter_delay = 0, cache = None\<rparr>\<rparr> = (i, nv, None, 0)"
    for nm nv
    by (simp add: settings_def)
  then show ?case
    using chs i
    by (simp add: SP1060Channel_init_def Ints_validate_def Numbers_def)
qed

lemma volt_get_all_result:
  "\<exists>vs chs' tr'. volt_get_all dev chs tr = (Inr vs, chs', tr') \<and> continues tr tr' \<and>
     wr_cmds tr' = wr_cmds tr @ map (\<lambda>ch. format_d (channel_no ch) @ '' V?'') chs \<and>
     map settings chs' = map settings chs"
proof (induction chs arbitrary: tr)
  case Nil
  then show ?case by (simp add: continues_refl)
next
  case (Cons ch chs)
  let ?tr1 = "snd (read_voltage dev (channel_no ch) tr)"
  obtain r ch' where g: "volt_get dev ch tr = (Inr r, ch', ?tr1)"
    and s: "settings ch' = settings ch"
    using volt_get_result [of dev ch tr] by (auto simp: settings_def)
  obtain vs chs' tr' where a: "volt_get_all dev chs ?tr1 = (Inr vs, chs', tr')"
    and c: "continues ?tr1 tr'"
    and w: "wr_cmds tr' = wr_cmds ?tr1 @ map (\<lambda>ch. format_d (channel_no ch) @ '' V?'') chs"
    and m: "map settings chs' = map settings chs"
    using Cons.IH [of ?tr1] by blast
  have "volt_get_all dev (ch # chs) tr = (Inr (r # vs), ch' # chs', tr')"
    by (simp add: g a)
  moreover have "continues tr tr'"
    by (rule continues_trans [OF read_voltage_trace(1) c])
  moreover have "wr_cmds tr' =
      wr_cmds tr @ map (\<lambda>ch. format_d (channel_no ch) @ '' V?'') (ch # chs)"
    by (simp add: w read_voltage_trace)
  moreover have "map settings (ch' # chs') = map settings (ch # chs)"
    by (simp add: s m)
  ultimately show ?case by blast
qed

lemma read_cmd_not_all_on: "format_d i @ '' V?'' \<noteq> ''ALL ON''"
proof
  assume "format_d i @ '' V?'' = ''ALL ON''"
  then have "last (format_d i @ '' V?'') = last ''ALL ON''"
    by simp
  then show False by simp
qed

lemma count_read_cmds: "count_list (map (\<lambda>ch. format_d (channel_no ch) @ '' V?'') chs) ''ALL ON'' = 0"
  by (induction chs) (simp_all add: read_cmd_not_all_on)

lemma SP1060_init_result:
  "\<exists>d. SP1060_init dev min_val max_val = Inr d \<and>
        continues (if ''OFF'' \<in> set (fst (query_all dev []))
                   then all_on dev (snd (query_all dev [])) else snd (query_all dev [])) (visa d) \<and>
        wr_cmds (visa d) =
          ''All S?'' # (if ''OFF'' \<in> set (fst (query_all dev [])) then [''ALL ON''] else []) @
          [''HARD?'', ''SOFT?''] @ map (\<lambda>ch. format_d (channel_no ch) @ '' V?'') (channels d) \<and>
        map settings (channels d) =
          map (\<lambda>i. (i, \<lparr>min_value = -10, max_value = 10\<rparr>, Some 0.01, 0.02)) [1 .. 24]"
proof -
  define ns :: "int list" where "ns = [1 .. 24]"
  have "\<forall>i \<in> set ns. 1 \<le> i \<and> i \<le> 24"
    by (simp add: ns_def)
  then obtain chs where chs: "make_channels ns = Inr chs"
    and set0: "map settings chs = map (\<lambda>i. (i, \<lparr>min_value = -10, max_value = 10\<rparr>, None, 0)) ns"
    using make_channels_ok by blast
  define chs1 where
    "chs1 = map (\<lambda>chan. chan\<lparr>volt := (volt chan)\<lparr>inter_delay := 0.02, step := Some 0.01\<rparr>\<rparr>) chs"
  define status where "status = fst (query_all dev [])"
  define tr1 where "tr1 = snd (query_all dev [])"
  define tr2 where "tr2 = (if ''OFF'' \<in> set status then all_on dev tr1 else tr1)"
  define tr3 where "tr3 = snd (get_idn dev tr2)"
  obtain vs chs2 tr4 where g: "volt_get_all dev chs1 tr3 = (Inr vs, chs2, tr4)"
    and c: "continues tr3 tr4"
    and w: "wr_cmds tr4 = wr_cmds tr3 @ map (\<lambda>ch. format_d (channel_no ch) @ '' V?'') chs1"
    and m: "map settings chs2 = map settings chs1"
    using volt_get_all_result [of dev chs1 tr3] by blast
  have "SP1060_init dev min_val max_val =
      (case volt_get_all dev chs1 tr3 of
         (Inl e, chs2, tr4) \<Rightarrow> Inl e
       | (Inr vs, chs2, tr4) \<Rightarrow> Inr \<lparr>channels = chs2, num_chans = 24, visa = tr4\<rparr>)"
    unfolding SP1060_init_def ns_def [symmetric] chs chs1_def tr3_def tr2_def tr1_def status_def
    by (simp only: sum.case Let_def split_beta)
  then have init:
    "SP1060_init dev min_val max_val = Inr \<lparr>channels = chs2, num_chans = 24, visa = tr4\<rparr>"
    by (simp add: g)
  have s1: "map settings chs1 =
      map (\<lambda>i. (i, \<lparr>min_value = -10, max_value = 10\<rparr>, Some 0.01, 0.02)) ns"
  proof -
    have "settings (chan\<lparr>volt := (volt chan)\<lparr>inter_delay := 0.02, step := Some 0.01\<rparr>\<rparr>) =
        (fst (settings chan), fst (snd (settings chan)), Some 0.01, 0.02)" for chan
      by (simp add: settings_def)
    then have "map settings chs1 =
        map (\<lambda>x. (fst x, fst (snd x), Some 0.01, 0.02)) (map settings chs)"
      by (simp add: chs1_def comp_def)
    then show ?thesis
      by (simp add: set0 comp_def)
  qed
  have n: "map channel_no chs2 = map channel_no chs1"
  proof -
    have f: "channel_no = fst \<circ> settings"
      by (rule ext) (simp add: settings_def)
    show ?thesis
      using arg_cong [OF m, of "map fst"] by (simp add: f)
  qed
  have r: "map (\<lambda>ch. format_d (channel_no ch) @ '' V?'') chs1 =
           map (\<lambda>ch. format_d (channel_no ch) @ '' V?'') chs2"
    using arg_cong [OF n, of "map (\<lambda>i. format_d i @ '' V?'')"] by (simp add: comp_def)
  have w2: "wr_cmds tr2 = ''All S?'' # (if ''OFF'' \<in> set status then [''ALL ON''] else [])"
    by (simp add: tr2_def tr1_def all_on_trace query_all_trace)
  have w4: "wr_cmds tr4 = ''All S?'' # (if ''OFF'' \<in> set status then [''ALL ON''] else []) @
      [''HARD?'', ''SOFT?''] @ map (\<lambda>ch. format_d (channel_no ch) @ '' V?'') chs2"
    by (simp add: w r tr3_def get_idn_trace w2)
  have c4: "continues tr2 tr4"
    unfolding tr3_def [symmetric]
    by (rule continues_trans [OF _ c]) (simp add: tr3_def get_idn_trace)
  show ?thesis
    using init c4 w4 m s1
    unfolding status_def tr2_def tr1_def ns_def
    by (simp split del: if_split)
qed

subsection \<open>The driver as a whole\<close>

lemma continues_Nil: "continues [] tr \<Longrightarrow> disciplined tr"
  by (simp add: continues_def)

lemma SP1060_init_disciplined:
  "SP1060_init dev min_val max_val = Inr d \<Longrightarrow> disciplined (visa d)"
proof -
  assume d: "SP1060_init dev min_val max_val = Inr d"
  let ?tr1 = "snd (query_all dev [])"
  let ?tr2 = "if ''OFF'' \<in> set (fst (query_all dev [])) then all_on dev ?tr1 else ?tr1"
  have "continues ?tr2 (visa d)"
    using SP1060_init_result [of dev min_val max_val] d by auto
  moreover have "continues [] ?tr2"
    using continues_trans [OF query_all_trace(1) all_on_trace(1), of "[]" dev dev]
    by (simp add: query_all_trace)
  ultimately show ?thesis
    by (blast intro: continues_trans continues_Nil)
qed

lemma set_all_loop_continues: "continues tr (snd (snd (set_all_loop dev chs v tr)))"
proof (induction chs arbitrary: tr)
  case Nil
  then show ?case by (simp add: continues_refl)
next
  case (Cons ch chs)
  obtain r tr' where r: "volt_set dev ch v tr = (r, tr')"
    by (cases "volt_set dev ch v tr")
  have c: "continues tr tr'"
    using volt_set_continues [of tr dev ch v] r by simp
  show ?case
  proof (cases r)
    case (Inl e)
    with r c show ?thesis by simp
  next
    case (Inr ch')
    obtain q chs' tr'' where q: "set_all_loop dev chs v tr' = (q, chs', tr'')"
      by (cases "set_all_loop dev chs v tr'")
    have "continues tr' tr''"
      using Cons.IH [of tr'] q by simp
    with c have "continues tr tr''"
      by (rule continues_trans)
    with r Inr q show ?thesis by simp
  qed
qed

lemma run_call_continues: "continues (visa d) (visa (run_call dev d c))"
proof (cases c)
  case (Volt_set i v)
  obtain r tr' where r: "volt_set dev (channels d ! i) v (visa d) = (r, tr')"
    by (cases "volt_set dev (channels d ! i) v (visa d)")
  have "continues (visa d) tr'"
    using volt_set_continues [of "visa d" dev "channels d ! i" v] r by simp
  with Volt_set r show ?thesis
    by (cases r) (simp_all add: continues_refl)
next
  case (Volt_get i)
  obtain r ch tr' where r: "volt_get dev (channels d ! i) (visa d) = (r, ch, tr')"
    by (cases "volt_get dev (channels d ! i) (visa d)") auto
  have "continues (visa d) tr'"
    using volt_get_continues [of "visa d" dev "channels d ! i"] r by simp
  with Volt_get r show ?thesis
    by (simp add: continues_refl)
next
  case (Set_all v)
  obtain r chs tr' where r: "set_all_loop dev (channels d) v (visa d) = (r, chs, tr')"
    by (cases "set_all_loop dev (channels d) v (visa d)") auto
  have "continues (visa d) tr'"
    using set_all_loop_continues [of "visa d" dev "channels d" v] r by simp
  with Set_all r show ?thesis
    by (simp add: set_all_def)
next
  case Query_all
  then show ?thesis by (simp add: query_all_trace)
next
  case All_on
  then show ?thesis by (simp add: all_on_trace)
next
  case All_off
  then show ?thesis by (simp add: all_off_trace)
next
  case Get_serial
  then show ?thesis by (simp add: get_serial_trace)
next
  case Get_firmware
  then show ?thesis by (simp add: get_firmware_trace)
next
  case Get_idn
  then show ?thesis by (simp add: get_idn_trace)
next
  case (Set_newWaveform x1 x2 x3 x4 x5)
  then show ?thesis by (simp add: set_newWaveform_trace)
next
  case (Set_voltage chan code)
  then show ?thesis by (simp add: set_voltage_trace)
next
  case (Read_voltage chan)
  then show ?thesis by (simp add: read_voltage_trace)
next
  case (Write cmd)
  then show ?thesis by (simp add: continues_write)
next
  case Empty_buffer
  then show ?thesis by (simp add: empty_buffer_def continues_event)
qed

lemma run_calls_continues: "continues (visa d) (visa (run_calls dev d cs))"
proof (induction cs arbitrary: d)
  case Nil
  then show ?case by (simp add: run_calls_def continues_refl)
next
  case (Cons c cs)
  have "continues (visa (run_call dev d c)) (visa (run_calls dev (run_call dev d c) cs))"
    by (rule Cons.IH)
  with run_call_continues [of d dev c] show ?case
    by (simp add: run_calls_def continues_trans)
qed

text \<open>
  Claim C6. A command issued through \<^verbatim>\<open>write\<close> first clears the input buffer and then
  performs one exchange: the command is written and one reply is read. The same holds of
  the whole driver: after the constructor and any sequence of calls, every command in
  the trace of the handle stands right after a clear and right before the read of its
  reply, so no command is written without a reply being read.
\<close>

theorem write_path_discipline:
  "SP1060_write dev cmd tr = (dev (tr @ [Clear, Wr cmd, Rd]), tr @ [Clear, Wr cmd, Rd]) \<and>
   (\<exists>d. SP1060_init dev min_val max_val = Inr d \<and> disciplined (visa (run_calls dev d calls)))"
proof -
  obtain d where d: "SP1060_init dev min_val max_val = Inr d"
    using SP1060_init_result by blast
  have "disciplined (visa (run_calls dev d calls))"
    using continues_disciplined [OF SP1060_init_disciplined [OF d] run_calls_continues] .
  with d show ?thesis
    by (simp add: SP1060_write_trace)
qed

theorem write_path_discipline_witness:
  "SP1060_write (\<lambda>tr. []) ''ALL ON'' [] = ([], [Clear, Wr ''ALL ON'', Rd]) \<and>
   (\<exists>d. SP1060_init (\<lambda>tr. []) (-10) 10 = Inr d \<and>
        disciplined (visa (run_calls (\<lambda>tr. []) d [All_off, Volt_set 11 3, Get_idn])))"
  using write_path_discipline
    [of "\<lambda>tr. []" "''ALL ON''" "[]" "-10" 10 "[All_off, Volt_set 11 3, Get_idn]"]
  by simp

text \<open>
  Claim C5. The constructor completes, and it writes \<^verbatim>\<open>ALL ON\<close> exactly once when the
  token list of its status query contains \<^verbatim>\<open>OFF\<close>, and never otherwise.
\<close>

theorem SP1060_init_all_on:
  "\<exists>d. SP1060_init dev min_val max_val = Inr d \<and>
        count_list (wr_cmds (visa d)) ''ALL ON'' =
          (if ''OFF'' \<in> set (fst (query_all dev [])) then 1 else 0)"
proof -
  obtain d where d: "SP1060_init dev min_val max_val = Inr d"
    and w: "wr_cmds (visa d) =
          ''All S?'' # (if ''OFF'' \<in> set (fst (query_all dev [])) then [''ALL ON''] else []) @
          [''HARD?'', ''SOFT?''] @ map (\<lambda>ch. format_d (channel_no ch) @ '' V?'') (channels d)"
    using SP1060_init_result [of dev min_val max_val] by blast
  have "count_list (wr_cmds (visa d)) ''ALL ON'' =
          (if ''OFF'' \<in> set (fst (query_all dev [])) then 1 else 0)"
    unfolding w by (simp add: count_read_cmds)
  with d show ?thesis by blast
qed

lemma off_reply: "''OFF'' \<in> set (fst (query_all (\<lambda>tr. ''ON;OFF'') []))"
  by (simp add: query_all_def SP1060_write_trace)

theorem SP1060_init_all_on_witness:
  "\<exists>d. SP1060_init (\<lambda>tr. ''ON;OFF'') (-10) 10 = Inr d \<and>
        count_list (wr_cmds (visa d)) ''ALL ON'' = 1"
  using SP1060_init_all_on [of "\<lambda>tr. ''ON;OFF''" "-10" 10] off_reply by simp

text \<open>
  Claim C2. For a channel whose last known value is \<open>0\<close>, with largest step \<open>0.01\<close> and
  the validator \<open>[-10, 10]\<close> that the constructor gives it, setting \<open>1\<close> succeeds and writes
  one set command for each value of the ramp from \<open>0\<close> to \<open>1\<close>. The ramp has 100 values,
  each at most \<open>0.01\<close> from the one before, each moving up towards \<open>1\<close>, the last being
  exactly \<open>1\<close>, which then is the last known value.
\<close>

theorem volt_set_ramp_0_to_1:
  assumes "cache (volt ch) = Some 0" and "step (volt ch) = Some 0.01"
    and "vals (volt ch) = \<lparr>min_value = -10, max_value = 10\<rparr>"
  shows "fst (volt_set dev ch 1 tr) = Inr (ch\<lparr>volt := (volt ch)\<lparr>cache := Some 1\<rparr>\<rparr>) \<and>
         wr_cmds (snd (volt_set dev ch 1 tr)) =
           wr_cmds tr @ map (volt_command (channel_no ch)) (ramp 0 1 0.01) \<and>
         length (ramp 0 1 0.01) = 100 \<and>
         steps_within 0.01 0 (ramp 0 1 0.01) \<and>
         steps_towards 1 0 (ramp 0 1 0.01) \<and>
         last (ramp 0 1 0.01) = 1"
proof -
  have v: "volt_set dev ch 1 tr = send_steps dev ch (ramp 0 1 0.01) tr"
    using assms by (simp add: volt_set_def validate_def ramp_values_def)
  have "fst (volt_set dev ch 1 tr) = Inr (ch\<lparr>volt := (volt ch)\<lparr>cache := Some 1\<rparr>\<rparr>)"
    unfolding v send_steps_fst [OF ramp_0_1_range] by (simp add: ramp_not_Nil ramp_last)
  moreover have "wr_cmds (snd (volt_set dev ch 1 tr)) =
           wr_cmds tr @ map (volt_command (channel_no ch)) (ramp 0 1 0.01)"
    unfolding v by (rule send_steps_cmds [OF ramp_0_1_range])
  ultimately show ?thesis
    using ramp_0_1 by simp
qed

lemma hexchar_8_C: "hexchar 8 = CHR ''8''" "hexchar 12 = CHR ''C''"
  by code_simp+

lemma digit_char_1_2: "digit_char (Suc 0) = CHR ''1''" "digit_char 2 = CHR ''2''"
  by code_simp+

lemma hex_1V: "format_X 9227468 = ''8CCCCC''"
  by (simp add: format_X_def hex_digits.simps hexchar_8_C)

lemma dec_12: "format_d 12 = ''12''"
  by (simp add: format_d_def dec_digits.simps digit_char_1_2)

lemma code_1V: "dac_code 1 = 9227468"
  by (simp add: dac_code_def fadd_def fmul_def to_double_def exponent.simps round_half_even_def
      trunc_def)

lemma last_command_1V: "volt_command 12 1 = ''12 8CCCCC''"
  unfolding volt_command_def code_1V hex_1V dec_12 by simp

theorem volt_set_ramp_0_to_1_witness:
  "length (wr_cmds (snd (volt_set (\<lambda>tr. [])
     \<lparr>name = ''chan12'', channel_no = 12, volt_val = \<lparr>min_value = -10, max_value = 10\<rparr>,
      volt = \<lparr>vals = \<lparr>min_value = -10, max_value = 10\<rparr>, step = Some 0.01,
              inter_delay = 0.02, cache = Some 0\<rparr>\<rparr> 1 []))) = 100 \<and>
   last (wr_cmds (snd (volt_set (\<lambda>tr. [])
     \<lparr>name = ''chan12'', channel_no = 12, volt_val = \<lparr>min_value = -10, max_value = 10\<rparr>,
      volt = \<lparr>vals = \<lparr>min_value = -10, max_value = 10\<rparr>, step = Some 0.01,
              inter_delay = 0.02, cache = Some 0\<rparr>\<rparr> 1 []))) = ''12 8CCCCC''"
  using volt_set_ramp_0_to_1 [of "\<lparr>name = ''chan12'', channel_no = 12, volt_val = \<lparr>min_value = -10, max_value = 10\<rparr>,
      volt = \<lparr>vals = \<lparr>min_value = -10, max_value = 10\<rparr>, step = Some 0.01,
              inter_delay = 0.02, cache = Some 0\<rparr>\<rparr>" "\<lambda>tr. []" "[]"]
  by (simp add: last_map ramp_not_Nil last_command_1V)

end
